theory Spec2Isabelle
  imports Complex_Main "HOL-Library.AList"
begin

section \<open>JavaScript numbers\<close>

text \<open>
  A number of the program is an IEEE 754 double: a finite value, one of the two infinities
  or NaN. A finite double is kept as the real it stands for; the two zeros are one value,
  since nothing below divides by a computed zero or tells them apart.
\<close>

datatype Number = Fin real | PosInf | NegInf | NaN

text \<open>
  Every operation rounds its exact result to the nearest double, a tie going to the even
  mantissa: \<open>roundEven\<close> rounds to an integer that way, \<open>ulpExp x\<close> is the exponent of the
  unit in the last of the 53 places of a double near \<open>x\<close> (it stops falling at the
  subnormals), and \<open>rnd\<close> overflows to an infinity from \<open>2 ^ 1024\<close> on.
\<close>

definition roundEven :: "real \<Rightarrow> int" where
  "roundEven r =
     (let f = \<lfloor>r\<rfloor>; d = r - of_int f
      in if d < 1 / 2 then f else if d > 1 / 2 then f + 1 else if even f then f else f + 1)"

definition ulpExp :: "real \<Rightarrow> int" where
  "ulpExp x = max \<lfloor>log 2 \<bar>x\<bar>\<rfloor> (- 1022) - 52"

definition round53 :: "real \<Rightarrow> real" where
  "round53 x =
     (if x = 0 then 0
      else of_int (roundEven (x / 2 powi ulpExp x)) * 2 powi ulpExp x)"

definition rnd :: "real \<Rightarrow> Number" where
  "rnd x =
     (let y = round53 x
      in if y \<ge> 2 ^ 1024 then PosInf else if y \<le> - (2 ^ 1024) then NegInf else Fin y)"

text \<open>
  The operators \<open>-x\<close>, \<open>+\<close>, \<open>-\<close>, \<open>*\<close>, \<open>/\<close> by a positive finite divisor (the only
  divisions below are by 1000 and by the length of a non-empty array), \<open><\<close> and
  \<open>Math.round\<close>, which takes a tie up.
\<close>

fun nneg :: "Number \<Rightarrow> Number" where
  "nneg (Fin x) = Fin (- x)"
| "nneg PosInf = NegInf"
| "nneg NegInf = PosInf"
| "nneg NaN = NaN"

fun nadd :: "Number \<Rightarrow> Number \<Rightarrow> Number" where
  "nadd (Fin x) (Fin y) = rnd (x + y)"
| "nadd NaN b = NaN"
| "nadd a NaN = NaN"
| "nadd PosInf NegInf = NaN"
| "nadd NegInf PosInf = NaN"
| "nadd PosInf b = PosInf"
| "nadd NegInf b = NegInf"
| "nadd a PosInf = PosInf"
| "nadd a NegInf = NegInf"

definition nsub :: "Number \<Rightarrow> Number \<Rightarrow> Number" where
  "nsub a b = nadd a (nneg b)"

fun nmul :: "Number \<Rightarrow> Number \<Rightarrow> Number" where
  "nmul (Fin x) (Fin y) = rnd (x * y)"
| "nmul NaN b = NaN"
| "nmul a NaN = NaN"
| "nmul (Fin x) PosInf = (if x = 0 then NaN else if x > 0 then PosInf else NegInf)"
| "nmul (Fin x) NegInf = (if x = 0 then NaN else if x > 0 then NegInf else PosInf)"
| "nmul PosInf (Fin y) = (if y = 0 then NaN else if y > 0 then PosInf else NegInf)"
| "nmul NegInf (Fin y) = (if y = 0 then NaN else if y > 0 then NegInf else PosInf)"
| "nmul PosInf PosInf = PosInf"
| "nmul NegInf NegInf = PosInf"
| "nmul PosInf NegInf = NegInf"
| "nmul NegInf PosInf = NegInf"

fun ndivPos :: "Number \<Rightarrow> real \<Rightarrow> Number" where
  "ndivPos (Fin x) d = rnd (x / d)"
| "ndivPos a d = a"

fun nless :: "Number \<Rightarrow> Number \<Rightarrow> bool" where
  "nless (Fin x) (Fin y) = (x < y)"
| "nless NaN b = False"
| "nless a NaN = False"
| "nless a NegInf = False"
| "nless PosInf b = False"
| "nless NegInf b = True"
| "nless a PosInf = True"

fun Math_round :: "Number \<Rightarrow> Number" where
  "Math_round (Fin x) = Fin (of_int \<lfloor>x + 1 / 2\<rfloor>)"
| "Math_round a = a"

section \<open>Shared data (server/src/types.ts)\<close>

text \<open>
  Sequence numbers, ping samples and worker loads arrive from outside and are doubles
  (\<open>Number\<close>). Clock readings of \<open>Date.now()\<close>, time stamps in milliseconds and counts are
  integers (\<open>int\<close>, \<open>nat\<close>); coordinates of positions and shots are reals, so the
  rounding inside \<open>Math.sqrt\<close> is idealised in \<open>validatePosition\<close> and
  \<open>validateShoot\<close>. A record field whose source name is used by two interfaces, or clashes
  with a HOL constant, carries a short prefix.
\<close>

datatype Severity = Warning | Violation | Ban

text \<open>
  A template string is kept as the list of its pieces: literal text, an interpolated
  integer or double, and a number printed with \<open>toFixed(d)\<close>.
\<close>

datatype Piece = Str string | Num int | Dbl Number | Fixed real nat

type_synonym Text = "Piece list"

record PositionData =
  pos_x :: real
  pos_y :: real
  pos_z :: real
  velocityX :: real
  velocityY :: real
  velocityZ :: real
  lookX :: real
  lookY :: real
  lookZ :: real

record ShootData =
  originX :: real
  originY :: real
  originZ :: real
  directionX :: real
  directionY :: real
  directionZ :: real
  weaponId :: string

record ActionData =
  action :: string
  targetId :: "string option"

text \<open>
  \<open>GamePacket.type\<close> and \<open>GamePacket.data\<close> together: a well-formed packet carries the
  data its type announces.
\<close>

datatype PacketData =
  PositionPacket PositionData
  | ShootPacket ShootData
  | ActionPacket ActionData

record GamePacket =
  pdata :: PacketData
  playerId :: string
  timestamp :: int
  sequence :: Number
  signature :: "string option"

record ValidationResult =
  valid :: bool
  reason :: "Text option"
  severity :: "Severity option"

section \<open>Packet validation (server/src/validation.ts)\<close>

definition MAX_SPEED :: int where
  "MAX_SPEED = 20"

definition MAX_POSITION_CHANGE :: int where
  "MAX_POSITION_CHANGE = 50"

definition MIN_SHOOT_INTERVAL :: int where
  "MIN_SHOOT_INTERVAL = 50"

definition MAX_SEQUENCE_GAP :: int where
  "MAX_SEQUENCE_GAP = 10"

definition POSITION_HISTORY_SIZE :: nat where
  "POSITION_HISTORY_SIZE = 20"

record ValidationViolation =
  v_type :: string
  v_severity :: Severity
  v_timestamp :: int
  details :: Text

record PlayerValidationState =
  lastPosition :: "PositionData option"
  lastShootTime :: int
  lastSequence :: Number
  lastTimestamp :: int
  positionHistory :: "PositionData list"
  violations :: "ValidationViolation list"
  warningCount :: int

type_synonym PlayerStates = "string \<rightharpoonup> PlayerValidationState"

definition newPlayerState :: PlayerValidationState where
  "newPlayerState =
     \<lparr>lastPosition = None, lastShootTime = 0, lastSequence = Fin (- 1), lastTimestamp = 0,
      positionHistory = [], violations = [], warningCount = 0\<rparr>"

text \<open>\<open>getPlayerState\<close>: the stored state, or a fresh one that is stored at once.\<close>

definition getPlayerState ::
  "PlayerStates \<Rightarrow> string \<Rightarrow> PlayerStates \<times> PlayerValidationState" where
  "getPlayerState playerStates pid =
     (case playerStates pid of
        Some state \<Rightarrow> (playerStates, state)
      | None \<Rightarrow> (playerStates(pid \<mapsto> newPlayerState), newPlayerState))"

definition clearValidationState :: "PlayerStates \<Rightarrow> string \<Rightarrow> PlayerStates" where
  "clearValidationState playerStates pid = playerStates(pid := None)"

definition okResult :: ValidationResult where
  "okResult = \<lparr>valid = True, reason = None, severity = None\<rparr>"

text \<open>
  \<open>recordViolation\<close>. The argument \<open>now\<close> is the reading of \<open>Date.now()\<close> taken inside
  the function; the violation brings its own time stamp. The state object is mutated in
  the source and returned here.
\<close>

definition recordViolation ::
  "int \<Rightarrow> string \<Rightarrow> PlayerValidationState \<Rightarrow> ValidationViolation
    \<Rightarrow> PlayerValidationState \<times> ValidationResult" where
  "recordViolation now pid state violation =
     (let pushed = violations state @ [violation];
          fiveMinutesAgo = now - 5 * 60 * 1000;
          kept = filter (\<lambda>v. v_timestamp v > fiveMinutesAgo) pushed;
          state' = state\<lparr>violations := kept\<rparr>;
          violationCount = length (filter (\<lambda>v. v_severity v = Violation) kept);
          warnCount = length (filter (\<lambda>v. v_severity v = Warning) kept)
      in if violationCount \<ge> 5 then
           (state', \<lparr>valid = False, reason = Some (details violation), severity = Some Ban\<rparr>)
         else if violationCount \<ge> 3 then
           (state', \<lparr>valid = False, reason = Some (details violation),
                     severity = Some Violation\<rparr>)
         else if warnCount \<ge> 10 then
           (state', \<lparr>valid = False, reason = Some (details violation),
                     severity = Some Violation\<rparr>)
         else
           (state', \<lparr>valid = True, reason = Some (details violation),
                     severity = Some Warning\<rparr>))"

text \<open>
  The validators below take two clock readings: \<open>now\<close>, read by the validator itself, and
  \<open>rnow\<close>, read afterwards inside \<open>recordViolation\<close>.
\<close>

definition validateTimestamp ::
  "int \<Rightarrow> int \<Rightarrow> GamePacket \<Rightarrow> PlayerValidationState
    \<Rightarrow> PlayerValidationState \<times> ValidationResult" where
  "validateTimestamp now rnow packet state =
     (if timestamp packet > now + 5000 then
        recordViolation rnow (playerId packet) state
          \<lparr>v_type = ''future_timestamp'', v_severity = Violation, v_timestamp = now,
           details = [Str ''Packet timestamp '', Num (timestamp packet),
                      Str '' is in the future'']\<rparr>
      else if timestamp packet < lastTimestamp state - 1000 then
        recordViolation rnow (playerId packet) state
          \<lparr>v_type = ''replay_attack'', v_severity = Violation, v_timestamp = now,
           details = [Str ''Packet timestamp '', Num (timestamp packet),
                      Str '' is before last timestamp '', Num (lastTimestamp state)]\<rparr>
      else (state\<lparr>lastTimestamp := timestamp packet\<rparr>, okResult))"

definition validateSequence ::
  "int \<Rightarrow> int \<Rightarrow> GamePacket \<Rightarrow> PlayerValidationState
    \<Rightarrow> PlayerValidationState \<times> ValidationResult" where
  "validateSequence now rnow packet state =
     (if lastSequence state = Fin (- 1) then
        (state\<lparr>lastSequence := sequence packet\<rparr>, okResult)
      else
        let expectedSequence = nadd (lastSequence state) (Fin 1);
            gap = nsub (sequence packet) expectedSequence
        in if nless (Fin (of_int MAX_SEQUENCE_GAP)) gap then
             recordViolation rnow (playerId packet) state
               \<lparr>v_type = ''sequence_gap'', v_severity = Warning, v_timestamp = now,
                details = [Str ''Sequence gap: expected '', Dbl expectedSequence,
                           Str '', got '', Dbl (sequence packet)]\<rparr>
           else if nless gap (Fin 0) then
             (state, \<lparr>valid = False,
                      reason = Some [Str ''Duplicate or out-of-order packet''],
                      severity = None\<rparr>)
           else (state\<lparr>lastSequence := sequence packet\<rparr>, okResult))"

definition validatePosition ::
  "int \<Rightarrow> int \<Rightarrow> PositionData \<Rightarrow> string \<Rightarrow> PlayerValidationState
    \<Rightarrow> PlayerValidationState \<times> ValidationResult" where
  "validatePosition now rnow position pid state =
     (case lastPosition state of
        None \<Rightarrow>
          (state\<lparr>lastPosition := Some position,
                 positionHistory := positionHistory state @ [position]\<rparr>, okResult)
      | Some lastPos \<Rightarrow>
          let dx = pos_x position - pos_x lastPos;
              dy = pos_y position - pos_y lastPos;
              dz = pos_z position - pos_z lastPos;
              distance = sqrt (dx * dx + dy * dy + dz * dz)
          in if distance > of_int MAX_POSITION_CHANGE then
               (let (state', result) =
                      recordViolation rnow pid state
                        \<lparr>v_type = ''teleport'', v_severity = Violation, v_timestamp = now,
                         details = [Str ''Moved '', Fixed distance 2,
                                    Str '' units in one packet (max: '',
                                    Num MAX_POSITION_CHANGE, Str '')'']\<rparr>
                in (state'\<lparr>lastPosition := Some position\<rparr>, result))
             else
               let velocityMagnitude =
                     sqrt (velocityX position * velocityX position +
                           velocityY position * velocityY position +
                           velocityZ position * velocityZ position)
               in if velocityMagnitude > of_int MAX_SPEED then
                    (let (state', result) =
                           recordViolation rnow pid state
                             \<lparr>v_type = ''speed_hack'', v_severity = Violation,
                              v_timestamp = now,
                              details = [Str ''Velocity '', Fixed velocityMagnitude 2,
                                         Str '' exceeds max speed '', Num MAX_SPEED]\<rparr>
                     in (state'\<lparr>lastPosition := Some position\<rparr>, result))
                  else
                    let pushed = positionHistory state @ [position];
                        history = (if length pushed > POSITION_HISTORY_SIZE
                                   then tl pushed else pushed)
                    in (state\<lparr>positionHistory := history,
                               lastPosition := Some position\<rparr>, okResult))"

definition validateShoot ::
  "int \<Rightarrow> int \<Rightarrow> ShootData \<Rightarrow> string \<Rightarrow> PlayerValidationState
    \<Rightarrow> PlayerValidationState \<times> ValidationResult" where
  "validateShoot now rnow shoot pid state =
     (let timeSinceLastShot = now - lastShootTime state
      in if timeSinceLastShot < MIN_SHOOT_INTERVAL then
           (let (state', result) =
                  recordViolation rnow pid state
                    \<lparr>v_type = ''rapid_fire'', v_severity = Violation, v_timestamp = now,
                     details = [Str ''Shot interval '', Num timeSinceLastShot,
                                Str ''ms is below minimum '', Num MIN_SHOOT_INTERVAL,
                                Str ''ms'']\<rparr>
            in (state'\<lparr>lastShootTime := now\<rparr>, result))
         else
           let dirMagnitude =
                 sqrt (directionX shoot * directionX shoot +
                       directionY shoot * directionY shoot +
                       directionZ shoot * directionZ shoot)
           in if \<bar>dirMagnitude - 1\<bar> > 1 / 100 then
                recordViolation rnow pid state
                  \<lparr>v_type = ''invalid_direction'', v_severity = Warning, v_timestamp = now,
                   details = [Str ''Shoot direction magnitude '', Fixed dirMagnitude 4,
                              Str '' is not normalized'']\<rparr>
              else
                (case lastPosition state of
                   Some lastPos \<Rightarrow>
                     let originDistance =
                           sqrt ((originX shoot - pos_x lastPos)\<^sup>2 +
                                 (originY shoot - pos_y lastPos)\<^sup>2 +
                                 (originZ shoot - pos_z lastPos)\<^sup>2)
                     in if originDistance > 5 then
                          recordViolation rnow pid state
                            \<lparr>v_type = ''position_mismatch'', v_severity = Warning,
                             v_timestamp = now,
                             details = [Str ''Shoot origin is '', Fixed originDistance 2,
                                        Str '' units from player position'']\<rparr>
                        else (state\<lparr>lastShootTime := now\<rparr>, okResult)
                 | None \<Rightarrow> (state\<lparr>lastShootTime := now\<rparr>, okResult)))"

text \<open>
  One call of \<open>validatePacket\<close> reads the clock up to six times, twice in each stage; the
  record names the readings in the order of the stages.
\<close>

record Readings =
  ts_now :: int
  ts_rnow :: int
  seq_now :: int
  seq_rnow :: int
  data_now :: int
  data_rnow :: int

definition validatePacket ::
  "Readings \<Rightarrow> PlayerStates \<Rightarrow> GamePacket \<Rightarrow> PlayerStates \<times> ValidationResult" where
  "validatePacket clk playerStates packet =
     (let pid = playerId packet;
          (states0, state0) = getPlayerState playerStates pid;
          (state1, timestampResult) =
             validateTimestamp (ts_now clk) (ts_rnow clk) packet state0
      in if \<not> valid timestampResult then (states0(pid \<mapsto> state1), timestampResult)
         else
           let (state2, sequenceResult) =
                  validateSequence (seq_now clk) (seq_rnow clk) packet state1
           in if \<not> valid sequenceResult then (states0(pid \<mapsto> state2), sequenceResult)
              else
                (case pdata packet of
                   PositionPacket position \<Rightarrow>
                     (let (state3, result) =
                            validatePosition (data_now clk) (data_rnow clk) position pid state2
                      in (states0(pid \<mapsto> state3), result))
                 | ShootPacket shoot \<Rightarrow>
                     (let (state3, result) =
                            validateShoot (data_now clk) (data_rnow clk) shoot pid state2
                      in (states0(pid \<mapsto> state3), result))
                 | ActionPacket a \<Rightarrow> (states0(pid \<mapsto> state2), okResult)))"

record ViolationSummary =
  s_warnings :: nat
  s_violations :: nat
  shouldBan :: bool

definition getViolationSummary :: "int \<Rightarrow> PlayerStates \<Rightarrow> string \<Rightarrow> ViolationSummary" where
  "getViolationSummary now playerStates pid =
     (case playerStates pid of
        None \<Rightarrow> \<lparr>s_warnings = 0, s_violations = 0, shouldBan = False\<rparr>
      | Some state \<Rightarrow>
          let fiveMinutesAgo = now - 5 * 60 * 1000;
              recentViolations = filter (\<lambda>v. v_timestamp v > fiveMinutesAgo) (violations state);
              warnings = length (filter (\<lambda>v. v_severity v = Warning) recentViolations);
              nviolations = length (filter (\<lambda>v. v_severity v = Violation) recentViolations)
          in \<lparr>s_warnings = warnings, s_violations = nviolations,
              shouldBan = (nviolations \<ge> 5 \<or> (nviolations \<ge> 3 \<and> warnings \<ge> 5))\<rparr>)"

section \<open>Latency tracking and grouping (server/src/ping.ts)\<close>

text \<open>
  A queued player. Its \<open>ping\<close> is \<open>-1\<close> or a result of \<open>Math.round\<close>, an integer-valued
  double; the sign of a difference of two such doubles and its comparison with 100 are
  those of the integers they stand for, so \<open>ping\<close> is kept as an integer. A \<open>ping\<close> that
  is NaN or infinite is left out.
\<close>

record PlayerInfo =
  p_id :: string
  joinedAt :: int
  ping :: int
  p_region :: string
  lastHeartbeat :: int

definition MAX_PING_DIFFERENCE :: int where
  "MAX_PING_DIFFERENCE = 100"

definition PING_SAMPLE_COUNT :: nat where
  "PING_SAMPLE_COUNT = 5"

type_synonym PingHistory = "string \<rightharpoonup> Number list"

definition recordPingSample :: "PingHistory \<Rightarrow> string \<Rightarrow> Number \<Rightarrow> PingHistory" where
  "recordPingSample playerPingHistory pid sample =
     (let history = (case playerPingHistory pid of Some h \<Rightarrow> h | None \<Rightarrow> []);
          pushed = history @ [sample];
          shifted = (if length pushed > PING_SAMPLE_COUNT then tl pushed else pushed)
      in playerPingHistory(pid \<mapsto> shifted))"

text \<open>
  \<open>getAveragePing\<close>: the samples are added from the left, starting from 0, each sum
  rounded; the quotient by the number of samples is rounded, then \<open>Math.round\<close> is taken.
\<close>

definition getAveragePing :: "PingHistory \<Rightarrow> string \<Rightarrow> Number" where
  "getAveragePing playerPingHistory pid =
     (case playerPingHistory pid of
        None \<Rightarrow> Fin (- 1)
      | Some history \<Rightarrow>
          if length history = 0 then Fin (- 1)
          else let total = foldl nadd (Fin 0) history
               in Math_round (ndivPos total (real (length history))))"

definition clearPingHistory :: "PingHistory \<Rightarrow> string \<Rightarrow> PingHistory" where
  "clearPingHistory playerPingHistory pid = playerPingHistory(pid := None)"

definition arePingsCompatible :: "int \<Rightarrow> int \<Rightarrow> bool" where
  "arePingsCompatible ping1 ping2 =
     (if ping1 < 0 \<or> ping2 < 0 then True else \<bar>ping1 - ping2\<bar> \<le> MAX_PING_DIFFERENCE)"

text \<open>
  The loop of \<open>groupPlayersByPing\<close> over \<open>sorted[1..]\<close>, with its two variables \<open>groups\<close>
  and \<open>currentGroup\<close>. Reading \<open>currentGroup[0].ping\<close> of an empty group would throw a
  \<open>TypeError\<close>; that is the result \<open>None\<close>.
\<close>

fun groupLoop ::
  "PlayerInfo list \<Rightarrow> PlayerInfo list list \<Rightarrow> PlayerInfo list
    \<Rightarrow> (PlayerInfo list list \<times> PlayerInfo list) option" where
  "groupLoop [] groups currentGroup = Some (groups, currentGroup)"
| "groupLoop (player # rest) groups currentGroup =
     (case currentGroup of
        [] \<Rightarrow> None
      | base # _ \<Rightarrow>
          if arePingsCompatible (ping base) (ping player)
          then groupLoop rest groups (currentGroup @ [player])
          else groupLoop rest (groups @ [currentGroup]) [player])"

text \<open>\<open>Array.prototype.sort\<close> is stable, as \<open>sort_key\<close> is.\<close>

definition groupPlayersByPing :: "PlayerInfo list \<Rightarrow> PlayerInfo list list option" where
  "groupPlayersByPing players =
     (if length players = 0 then Some []
      else
        case sort_key ping players of
          [] \<Rightarrow> None
        | first # others \<Rightarrow>
            (case groupLoop others [] [first] of
               None \<Rightarrow> None
             | Some (groups, currentGroup) \<Rightarrow>
                 if length currentGroup > 0 then Some (groups @ [currentGroup])
                 else Some groups))"

text \<open>The second loop of \<open>selectPlayersForLobby\<close>, which merges groups into \<open>selected\<close>.\<close>

fun combineGroups :: "PlayerInfo list list \<Rightarrow> nat \<Rightarrow> PlayerInfo list \<Rightarrow> PlayerInfo list" where
  "combineGroups [] lobbySize selected = selected"
| "combineGroups (grp # rest) lobbySize selected =
     (let needed = int lobbySize - int (length selected)
      in if needed \<le> 0 then selected
         else
           let compatible =
                 filter (\<lambda>p. length selected = 0 \<or>
                              arePingsCompatible (ping (hd selected)) (ping p)) grp
           in combineGroups rest lobbySize (selected @ take (nat needed) compatible))"

definition selectPlayersForLobby :: "PlayerInfo list \<Rightarrow> nat \<Rightarrow> PlayerInfo list option" where
  "selectPlayersForLobby players lobbySize =
     (if length players \<le> lobbySize then Some players
      else
        case groupPlayersByPing players of
          None \<Rightarrow> None
        | Some groups \<Rightarrow>
            (case find (\<lambda>grp. length grp \<ge> lobbySize) groups of
               Some grp \<Rightarrow> Some (take lobbySize grp)
             | None \<Rightarrow> Some (combineGroups groups lobbySize [])))"

section \<open>Queue and lobby coordinators (server/src/index.ts)\<close>

definition NOSTR_RELAY :: string where
  "NOSTR_RELAY = ''wss://nos.lol''"

definition APP_ID :: string where
  "APP_ID = ''enari-fps-shooter-v1''"

definition LOBBY_SIZE :: nat where
  "LOBBY_SIZE = 4"

record Env =
  WORKER_ID :: string
  WORKER_REGION :: string
  MESH_SECRET :: string

record LobbyInfo =
  l_id :: string
  players :: "string list"
  hostId :: string
  maxPlayers :: nat
  createdAt :: int
  gameStarted :: bool
  workerId :: string
  l_region :: string

record TrysteroConfig =
  appId :: string
  relayUrls :: "string list"
  roomId :: string

text \<open>A socket is known by a handle; what the server does to sockets is a list of effects.\<close>

type_synonym WebSocket = nat

datatype Message =
  LobbyCreated string "string list" string bool TrysteroConfig
  | Kicked Text
  | Relayed GamePacket

datatype Effect =
  Send WebSocket Message
  | Close WebSocket
  | ConsoleWarn Text

text \<open>
  A JavaScript \<open>Map\<close> keeps its keys in insertion order: it is an association list with
  distinct keys, \<open>set\<close> is \<open>AList.update\<close>, \<open>delete\<close> is \<open>AList.delete\<close> and \<open>get\<close> is
  \<open>map_of\<close>. The copies written to durable storage are left out.
\<close>

record MatchmakingDO =
  m_players :: "(string \<times> PlayerInfo) list"
  m_lobbies :: "(string \<times> LobbyInfo) list"
  m_connections :: "(string \<times> WebSocket) list"

text \<open>
  One turn of the loop of \<open>createLobby\<close> over the chosen players: notify the player when a
  socket is known, then take the player out of the queue.
\<close>

definition notifyAndRemove ::
  "(string \<times> WebSocket) list \<Rightarrow> LobbyInfo \<Rightarrow> TrysteroConfig
    \<Rightarrow> (string \<times> PlayerInfo) list \<times> Effect list \<Rightarrow> PlayerInfo
    \<Rightarrow> (string \<times> PlayerInfo) list \<times> Effect list" where
  "notifyAndRemove conns lobby trysteroConfig acc player =
     (let (queue, sent) = acc;
          sent' = (case map_of conns (p_id player) of
                     Some ws \<Rightarrow>
                       sent @ [Send ws (LobbyCreated (l_id lobby) (players lobby) (hostId lobby)
                                          (p_id player = hostId lobby) trysteroConfig)]
                   | None \<Rightarrow> sent)
      in (AList.delete (p_id player) queue, sent'))"

text \<open>
  \<open>createLobby\<close>. The lobby id is built from \<open>Date.now()\<close> and \<open>Math.random()\<close> and is an
  argument here, as is the clock reading for \<open>createdAt\<close>. \<open>players[0].id\<close> of an empty
  array throws: \<open>None\<close>.
\<close>

definition createLobby ::
  "Env \<Rightarrow> int \<Rightarrow> string \<Rightarrow> MatchmakingDO \<Rightarrow> PlayerInfo list
    \<Rightarrow> (MatchmakingDO \<times> Effect list) option" where
  "createLobby env now lobbyId st chosen =
     (case chosen of
        [] \<Rightarrow> None
      | host # _ \<Rightarrow>
          let lobby = \<lparr>l_id = lobbyId, players = map p_id chosen, hostId = p_id host,
                       maxPlayers = LOBBY_SIZE, createdAt = now, gameStarted = False,
                       workerId = WORKER_ID env, l_region = WORKER_REGION env\<rparr>;
              lobbies = AList.update lobbyId lobby (m_lobbies st);
              trysteroConfig = \<lparr>appId = APP_ID, relayUrls = [NOSTR_RELAY],
                                roomId = ''official-lobby-'' @ lobbyId\<rparr>;
              (queue, sent) =
                 foldl (notifyAndRemove (m_connections st) lobby trysteroConfig)
                   (m_players st, []) chosen
          in Some (st\<lparr>m_lobbies := lobbies, m_players := queue\<rparr>, sent))"

definition tryCreateLobbies ::
  "Env \<Rightarrow> int \<Rightarrow> string \<Rightarrow> MatchmakingDO \<Rightarrow> (MatchmakingDO \<times> Effect list) option" where
  "tryCreateLobbies env now lobbyId st =
     (let playersArray = map snd (m_players st)
      in if length playersArray < LOBBY_SIZE then Some (st, [])
         else
           case selectPlayersForLobby playersArray LOBBY_SIZE of
             None \<Rightarrow> None
           | Some selectedPlayers \<Rightarrow>
               if length selectedPlayers \<ge> LOBBY_SIZE
               then createLobby env now lobbyId st (take LOBBY_SIZE selectedPlayers)
               else Some (st, []))"

text \<open>
  The lobby coordinator: \<open>broadcastToOthers\<close> and \<open>handleGamePacket\<close>. The map of
  connections is taken as it stands when the packet arrives; the sender is told apart by
  the player id the packet carries.
\<close>

definition broadcastToOthers ::
  "(string \<times> WebSocket) list \<Rightarrow> string \<Rightarrow> GamePacket \<Rightarrow> Effect list" where
  "broadcastToOthers conns senderId packet =
     map (\<lambda>(pid, ws). Send ws (Relayed packet))
       (filter (\<lambda>(pid, ws). pid \<noteq> senderId) conns)"

text \<open>String concatenation with a reason that may be \<open>undefined\<close>.\<close>

definition reasonText :: "Text option \<Rightarrow> Text" where
  "reasonText r = (case r of Some t \<Rightarrow> t | None \<Rightarrow> [Str ''undefined''])"

definition handleGamePacket ::
  "Readings \<Rightarrow> PlayerStates \<Rightarrow> (string \<times> WebSocket) list \<Rightarrow> WebSocket \<Rightarrow> GamePacket
    \<Rightarrow> PlayerStates \<times> Effect list" where
  "handleGamePacket clk playerStates conns ws packet =
     (let (playerStates', validationResult) = validatePacket clk playerStates packet
      in if \<not> valid validationResult then
           if severity validationResult = Some Ban then
             (playerStates',
              [Send ws (Kicked (Str ''Anti-cheat violation: '' #
                                  reasonText (reason validationResult))),
               Close ws])
           else
             (playerStates',
              (if severity validationResult = Some Violation
               then [ConsoleWarn ([Str ''Violation from '', Str (playerId packet), Str '': ''] @
                                    reasonText (reason validationResult))]
               else []) @
              broadcastToOthers conns (playerId packet) packet)
         else (playerStates', broadcastToOthers conns (playerId packet) packet))"

section \<open>Worker registry (server/src/workers-mesh.ts)\<close>

record WorkerLoad =
  activePlayers :: Number
  activeLobbies :: Number
  cpuUsage :: Number
  memoryUsage :: Number

record WorkerInfo =
  w_id :: string
  w_region :: string
  endpoint :: string
  lastSeen :: int
  load :: WorkerLoad
  publicKey :: string

definition WORKER_TIMEOUT :: int where
  "WORKER_TIMEOUT = 90000"

definition cleanupStaleWorkers ::
  "string \<Rightarrow> int \<Rightarrow> (string \<times> WorkerInfo) list \<Rightarrow> (string \<times> WorkerInfo) list" where
  "cleanupStaleWorkers localWorkerId now workers =
     filter (\<lambda>(wid, worker). \<not> (now - lastSeen worker > WORKER_TIMEOUT \<and> wid \<noteq> localWorkerId))
       workers"

text \<open>
  \<open>handleGetWorkers\<close>: the registry after the cleanup, and the list that is sent back.
  The filter reads the clock once for each record; \<open>readAt i\<close> is the reading taken for
  the record at index \<open>i\<close>.
\<close>

definition handleGetWorkers ::
  "string \<Rightarrow> int \<Rightarrow> (nat \<Rightarrow> int) \<Rightarrow> (string \<times> WorkerInfo) list
    \<Rightarrow> (string \<times> WorkerInfo) list \<times> WorkerInfo list" where
  "handleGetWorkers localWorkerId now readAt workers =
     (let workers' = cleanupStaleWorkers localWorkerId now workers;
          vals = map snd workers';
          activeWorkers =
            map snd (filter (\<lambda>(i, w). readAt i - lastSeen w < WORKER_TIMEOUT)
                       (zip [0..<length vals] vals))
      in (workers', activeWorkers))"

text \<open>
  The scoring callback of \<open>handleGetBestWorker\<close>: the score given to one active worker for a
  player of region \<open>playerRegion\<close>. The literal \<open>0.2\<close> is the double nearest to one fifth.
\<close>

definition scoreWorker :: "string \<Rightarrow> WorkerInfo \<Rightarrow> Number" where
  "scoreWorker playerRegion worker =
     (let score = Fin 100;
          score = (if w_region worker = playerRegion then nadd score (Fin 50) else score);
          loadPenalty = nmul (ndivPos (activePlayers (load worker)) 1000) (Fin 30);
          score = nsub score loadPenalty;
          score = nsub score (nmul (cpuUsage (load worker)) (rnd (2 / 10)))
      in score)"

section \<open>Observations and sample inputs\<close>

text \<open>The part of a violation log inside the trailing five minutes, and counts in it.\<close>

definition window :: "int \<Rightarrow> ValidationViolation list \<Rightarrow> ValidationViolation list" where
  "window now vs = filter (\<lambda>v. v_timestamp v > now - 5 * 60 * 1000) vs"

definition countSeverity :: "Severity \<Rightarrow> ValidationViolation list \<Rightarrow> nat" where
  "countSeverity s vs = length (filter (\<lambda>v. v_severity v = s) vs)"

definition sampleViolation :: "Severity \<Rightarrow> int \<Rightarrow> ValidationViolation" where
  "sampleViolation s t =
     \<lparr>v_type = ''sample'', v_severity = s, v_timestamp = t, details = [Str ''sample'']\<rparr>"

definition stateWith :: "int \<Rightarrow> ValidationViolation list \<Rightarrow> PlayerValidationState" where
  "stateWith lastSeq vs =
     newPlayerState\<lparr>lastSequence := Fin (of_int lastSeq), violations := vs\<rparr>"

text \<open>Logs at time 400000: one stale entry at 50000, the others inside the window.\<close>

definition fourViolations :: "ValidationViolation list" where
  "fourViolations =
     [sampleViolation Violation 50000, sampleViolation Violation 200000,
      sampleViolation Violation 200001, sampleViolation Warning 200002,
      sampleViolation Violation 300000, sampleViolation Violation 300001]"

definition twoViolations :: "ValidationViolation list" where
  "twoViolations =
     [sampleViolation Violation 50000, sampleViolation Violation 200000,
      sampleViolation Warning 200002, sampleViolation Violation 300000]"

definition nineWarnings :: "ValidationViolation list" where
  "nineWarnings =
     sampleViolation Violation 300000 # map (sampleViolation Warning) [200001, 200002, 200003,
       200004, 200005, 200006, 200007, 200008, 200009]"

definition threeAndFive :: "ValidationViolation list" where
  "threeAndFive =
     [sampleViolation Violation 200000, sampleViolation Violation 200001,
      sampleViolation Violation 200002, sampleViolation Warning 200003,
      sampleViolation Warning 200004, sampleViolation Warning 200005,
      sampleViolation Warning 200006, sampleViolation Warning 200007]"

definition actionPacket :: "string \<Rightarrow> int \<Rightarrow> int \<Rightarrow> GamePacket" where
  "actionPacket pid ts sq =
     \<lparr>pdata = ActionPacket \<lparr>action = ''jump'', targetId = None\<rparr>, playerId = pid,
      timestamp = ts, sequence = Fin (of_int sq), signature = None\<rparr>"

text \<open>The violation that \<open>validateSequence\<close> records for a gap above the limit.\<close>

definition gapWarning :: "int \<Rightarrow> GamePacket \<Rightarrow> PlayerValidationState \<Rightarrow> ValidationViolation" where
  "gapWarning now packet state =
     \<lparr>v_type = ''sequence_gap'', v_severity = Warning, v_timestamp = now,
      details = [Str ''Sequence gap: expected '', Dbl (nadd (lastSequence state) (Fin 1)),
                 Str '', got '', Dbl (sequence packet)]\<rparr>"

text \<open>What the effects of a handler show from outside: the messages sent, socket by socket, and
  the sockets closed.\<close>

fun sentMessages :: "Effect list \<Rightarrow> (WebSocket \<times> Message) list" where
  "sentMessages [] = []"
| "sentMessages (Send ws m # es) = (ws, m) # sentMessages es"
| "sentMessages (e # es) = sentMessages es"

fun closedSockets :: "Effect list \<Rightarrow> WebSocket list" where
  "closedSockets [] = []"
| "closedSockets (Close ws # es) = ws # closedSockets es"
| "closedSockets (e # es) = closedSockets es"

text \<open>The members a relayed packet must reach: every connection but the sender's.\<close>

definition relayTargets ::
  "(string \<times> WebSocket) list \<Rightarrow> GamePacket \<Rightarrow> (WebSocket \<times> Message) list" where
  "relayTargets conns packet =
     map (\<lambda>(pid, ws). (ws, Relayed packet)) (filter (\<lambda>(pid, ws). pid \<noteq> playerId packet) conns)"

definition clockAt :: "int \<Rightarrow> Readings" where
  "clockAt t = \<lparr>ts_now = t, ts_rnow = t, seq_now = t, seq_rnow = t, data_now = t, data_rnow = t\<rparr>"

definition threeMembers :: "(string \<times> WebSocket) list" where
  "threeMembers = [(''p1'', 1), (''p2'', 2), (''p3'', 3)]"

text \<open>
  A run of \<open>recordPingSample\<close> calls, the samples recorded for one player in it, and the
  last five of a list of samples.
\<close>

definition recordAll :: "PingHistory \<Rightarrow> (string \<times> Number) list \<Rightarrow> PingHistory" where
  "recordAll h records = foldl (\<lambda>h (pid, sample). recordPingSample h pid sample) h records"

definition samplesOf :: "string \<Rightarrow> (string \<times> Number) list \<Rightarrow> Number list" where
  "samplesOf pid records = map snd (filter (\<lambda>(p, sample). p = pid) records)"

definition lastSamples :: "Number list \<Rightarrow> Number list" where
  "lastSamples xs = drop (length xs - PING_SAMPLE_COUNT) xs"

definition pingLog :: "(string \<times> Number) list" where
  "pingLog = [(''p1'', Fin 100), (''p2'', Fin 10), (''p1'', Fin 10), (''p1'', Fin 20),
              (''p1'', Fin 30), (''p2'', Fin 21), (''p1'', Fin 40), (''p1'', Fin 50),
              (''p1'', Fin 61)]"

definition sampleWorker :: "string \<Rightarrow> int \<Rightarrow> (string \<times> WorkerInfo)" where
  "sampleWorker wid seen =
     (wid, \<lparr>w_id = wid, w_region = ''eu-west'', endpoint = ''https://'' @ wid @ ''.workers.dev'',
            lastSeen = seen,
            load = \<lparr>activePlayers = Fin 0, activeLobbies = Fin 0, cpuUsage = Fin 0,
                    memoryUsage = Fin 0\<rparr>,
            publicKey = ''key''\<rparr>)"

text \<open>
  A registry at time 400000: the local node unseen for 300 s, \<open>w1\<close> seen 50 s ago, \<open>w2\<close>
  unseen for 90.001 s and \<open>w3\<close> for exactly 90 s.
\<close>

definition registry :: "(string \<times> WorkerInfo) list" where
  "registry = [sampleWorker ''local'' 100000, sampleWorker ''w1'' 350000,
               sampleWorker ''w2'' 309999, sampleWorker ''w3'' 310000]"

text \<open>Waiting players, named by id and latency, and the lobby the samples lead to.\<close>

definition queued :: "string \<Rightarrow> int \<Rightarrow> string \<times> PlayerInfo" where
  "queued pid latency =
     (pid, \<lparr>p_id = pid, joinedAt = 0, ping = latency, p_region = ''eu-west'',
            lastHeartbeat = 0\<rparr>)"

definition sampleEnv :: Env where
  "sampleEnv = \<lparr>WORKER_ID = ''local'', WORKER_REGION = ''eu-west'', MESH_SECRET = ''secret''\<rparr>"

definition queueOf ::
  "(string \<times> PlayerInfo) list \<Rightarrow> (string \<times> WebSocket) list \<Rightarrow> MatchmakingDO" where
  "queueOf q conns = \<lparr>m_players = q, m_lobbies = [], m_connections = conns\<rparr>"

definition lobbyOf :: "string list \<Rightarrow> LobbyInfo" where
  "lobbyOf members =
     \<lparr>l_id = ''lobby_1'', players = members, hostId = hd members, maxPlayers = 4,
      createdAt = 1000, gameStarted = False, workerId = ''local'', l_region = ''eu-west''\<rparr>"

definition fourWaiting :: "(string \<times> PlayerInfo) list" where
  "fourWaiting = [queued ''a'' 10, queued ''b'' 40, queued ''c'' 90, queued ''d'' 200]"

definition fiveWaiting :: "(string \<times> PlayerInfo) list" where
  "fiveWaiting = fourWaiting @ [queued ''e'' 95]"

definition farWaiting :: "(string \<times> PlayerInfo) list" where
  "farWaiting = fourWaiting @ [queued ''f'' 500]"

text \<open>A queue where \<open>c\<close> has no measured latency yet, and one with no band of four.\<close>

definition sixWaiting :: "(string \<times> PlayerInfo) list" where
  "sixWaiting = [queued ''a'' 10, queued ''b'' 300, queued ''c'' (-1), queued ''d'' 320,
                 queued ''e'' 15, queued ''f'' 500]"

definition spreadWaiting :: "(string \<times> PlayerInfo) list" where
  "spreadWaiting = [queued ''a'' 10, queued ''b'' 40, queued ''c'' 200, queued ''d'' 230,
                    queued ''e'' 500]"

definition lobbyNotice :: "string list \<Rightarrow> bool \<Rightarrow> Message" where
  "lobbyNotice members isHost =
     LobbyCreated ''lobby_1'' members (hd members) isHost
       \<lparr>appId = APP_ID, relayUrls = [NOSTR_RELAY], roomId = ''official-lobby-lobby_1''\<rparr>"

text \<open>
  The queue as the coordinator keeps it: one entry for each key, filed under the player's
  own id.
\<close>

definition wellFormedQueue :: "(string \<times> PlayerInfo) list \<Rightarrow> bool" where
  "wellFormedQueue q = (distinct (map fst q) \<and> list_all (\<lambda>(k, p). p_id p = k) q)"

text \<open>
  Rounding a real to the nearest integer, a tie going up: the reading of ``rounded to the
  nearest integer'' that the average of the ping samples is compared with.
\<close>

definition nearestInt :: "real \<Rightarrow> int" where
  "nearestInt r = \<lfloor>r + 1 / 2\<rfloor>"

text \<open>
  Two ping logs on which the computed average leaves the rounded mean: two samples below 1
  whose sum rounds up to 1, and the samples \<open>2 ^ 53\<close> and 1.
\<close>

definition fineLog :: "(string \<times> Number) list" where
  "fineLog = [(''p1'', Fin (9007199254740991 / 2 ^ 53)), (''p1'', Fin (5 / 2 ^ 56))]"

definition hugeLog :: "(string \<times> Number) list" where
  "hugeLog = [(''p1'', Fin 9007199254740992), (''p1'', Fin 1)]"

text \<open>A worker record with the given region, number of players and CPU usage.\<close>

definition loadedWorker :: "string \<Rightarrow> real \<Rightarrow> real \<Rightarrow> WorkerInfo" where
  "loadedWorker reg nPlayers cpu =
     \<lparr>w_id = ''w1'', w_region = reg, endpoint = ''https://w1.workers.dev'', lastSeen = 0,
      load = \<lparr>activePlayers = Fin nPlayers, activeLobbies = Fin 0, cpuUsage = Fin cpu,
              memoryUsage = Fin 0\<rparr>,
      publicKey = ''key''\<rparr>"

section \<open>Properties of double rounding\<close>

lemma roundEven_of_int: "roundEven (of_int m) = m"
  by (simp add: roundEven_def)

lemma roundEven_near: "\<bar>of_int (roundEven r) - r\<bar> \<le> 1 / 2"
  unfolding roundEven_def Let_def by (auto; linarith)

lemma two_powi_powr: "(2::real) powr real_of_int k = 2 powi k"
  by (rule powr_real_of_int') simp_all

lemma floor_log2_bounds:
  assumes "x \<noteq> 0"
  shows "2 powi \<lfloor>log 2 \<bar>x\<bar>\<rfloor> \<le> \<bar>x\<bar>" "\<bar>x\<bar> < 2 powi (\<lfloor>log 2 \<bar>x\<bar>\<rfloor> + 1)"
proof -
  have "0 < \<bar>x\<bar>" using assms by simp
  then have "2 powr real_of_int \<lfloor>log 2 \<bar>x\<bar>\<rfloor> \<le> \<bar>x\<bar> \<and>
             \<bar>x\<bar> < 2 powr real_of_int (\<lfloor>log 2 \<bar>x\<bar>\<rfloor> + 1)"
    using floor_log_eq_powr_iff [of "\<bar>x\<bar>" 2 "\<lfloor>log 2 \<bar>x\<bar>\<rfloor>"] by simp
  then show "2 powi \<lfloor>log 2 \<bar>x\<bar>\<rfloor> \<le> \<bar>x\<bar>" "\<bar>x\<bar> < 2 powi (\<lfloor>log 2 \<bar>x\<bar>\<rfloor> + 1)"
    by (simp_all only: two_powi_powr)
qed

lemma floor_log2_eq:
  assumes "2 powi k \<le> \<bar>x\<bar>" "\<bar>x\<bar> < 2 powi (k + 1)"
  shows "\<lfloor>log 2 \<bar>x\<bar>\<rfloor> = k"
proof -
  have "0 < (2::real) powi k" by simp
  then have pos: "0 < \<bar>x\<bar>" using assms(1) by linarith
  have a: "2 powr real_of_int k \<le> \<bar>x\<bar>"
    using assms(1) by (simp only: two_powi_powr)
  have "\<bar>x\<bar> < 2 powr real_of_int (k + 1)"
    using assms(2) by (simp only: two_powi_powr)
  then have b: "\<bar>x\<bar> < 2 powr (real_of_int k + 1)"
    by (simp only: of_int_add of_int_1)
  show ?thesis
    using floor_log_eq_powr_iff [of "\<bar>x\<bar>" 2 k] pos a b by simp
qed

lemma floor_log2_less:
  assumes "x \<noteq> 0" "\<bar>x\<bar> < 2 powi (k + 1)"
  shows "\<lfloor>log 2 \<bar>x\<bar>\<rfloor> \<le> k"
proof (rule ccontr)
  assume "\<not> \<lfloor>log 2 \<bar>x\<bar>\<rfloor> \<le> k"
  then have "k + 1 \<le> \<lfloor>log 2 \<bar>x\<bar>\<rfloor>" by simp
  then have "(2::real) powi (k + 1) \<le> 2 powi \<lfloor>log 2 \<bar>x\<bar>\<rfloor>"
    by (intro power_int_increasing) simp_all
  then show False
    using floor_log2_bounds(1) [OF assms(1)] assms(2) by linarith
qed

lemma ulpExp_eval:
  assumes "2 powi k \<le> \<bar>x\<bar>" "\<bar>x\<bar> < 2 powi (k + 1)"
  shows "ulpExp x = max k (- 1022) - 52"
  unfolding ulpExp_def floor_log2_eq [OF assms] ..

lemma round53_exact:
  assumes x: "x = of_int m * 2 powi i" and m: "\<bar>m\<bar> < 2 ^ 53" and i: "- 1074 \<le> i"
  shows "round53 x = x"
proof (cases "x = 0")
  case True
  then show ?thesis by (simp add: round53_def)
next
  case False
  have "\<bar>x\<bar> = of_int \<bar>m\<bar> * 2 powi i"
    by (simp add: x abs_mult)
  also have "\<dots> < 2 ^ 53 * 2 powi i"
  proof -
    have "(of_int \<bar>m\<bar> :: real) < of_int (2 ^ 53)" using m by (simp only: of_int_less_iff)
    then show ?thesis by simp
  qed
  also have "\<dots> = 2 powi (52 + i + 1)"
  proof -
    have "(2::real) powi (53 + i) = 2 powi 53 * 2 powi i"
      by (rule power_int_add) simp
    moreover have "(2::real) powi 53 = 2 ^ 53"
      by (rule power_int_numeral)
    moreover have "52 + i + 1 = 53 + i" by simp
    ultimately show ?thesis by (simp only:)
  qed
  finally have "\<lfloor>log 2 \<bar>x\<bar>\<rfloor> \<le> 52 + i"
    using False by (intro floor_log2_less)
  then have u: "ulpExp x \<le> i" using i by (simp add: ulpExp_def)
  define j where "j = nat (i - ulpExp x)"
  have "(2::real) powi (i - ulpExp x) = 2 powi i / 2 powi ulpExp x"
    by (rule power_int_diff) simp
  moreover have "(2::real) powi (i - ulpExp x) = 2 ^ j"
    unfolding j_def using u by (intro power_int_nonneg_exp) simp
  ultimately have q: "(2::real) powi i / 2 powi ulpExp x = 2 ^ j"
    by simp
  have "x / 2 powi ulpExp x = of_int m * (2 powi i / 2 powi ulpExp x)"
    by (subst x) simp
  also have "\<dots> = of_int (m * 2 ^ j)"
    unfolding q by simp
  finally have "roundEven (x / 2 powi ulpExp x) = m * 2 ^ j"
    by (simp only: roundEven_of_int)
  then have "round53 x = of_int (m * 2 ^ j) * 2 powi ulpExp x"
    using False by (simp add: round53_def)
  also have "\<dots> = of_int m * (2 ^ j * 2 powi ulpExp x)"
    by simp
  also have "2 ^ j * 2 powi ulpExp x = (2::real) powi i"
    unfolding q [symmetric] by simp
  finally show ?thesis
    by (simp only: x [symmetric])
qed

lemma round53_error:
  assumes "\<bar>x\<bar> \<le> 2 powi k" "- 1022 \<le> k"
  shows "\<bar>round53 x - x\<bar> \<le> 2 powi (k - 53)"
proof (cases "x = 0")
  case True
  then show ?thesis by (simp add: round53_def)
next
  case False
  have "\<bar>x\<bar> < 2 powi (k + 1)"
  proof -
    have "(2::real) powi k < 2 powi (k + 1)" by (intro power_int_strict_increasing) simp_all
    then show ?thesis using assms(1) by linarith
  qed
  then have "\<lfloor>log 2 \<bar>x\<bar>\<rfloor> \<le> k" using False by (intro floor_log2_less)
  then have u: "ulpExp x \<le> k - 52" using assms(2) by (simp add: ulpExp_def)
  let ?u = "(2::real) powi ulpExp x"
  have pos: "0 < ?u" by simp
  have "round53 x - x = (of_int (roundEven (x / ?u)) - x / ?u) * ?u"
    using False by (simp add: round53_def field_simps)
  then have "\<bar>round53 x - x\<bar> = \<bar>of_int (roundEven (x / ?u)) - x / ?u\<bar> * ?u"
    using pos by (simp add: abs_mult)
  also have "\<dots> \<le> 1 / 2 * ?u"
    using roundEven_near [of "x / ?u"] pos by (intro mult_right_mono) simp_all
  also have "\<dots> = 2 powi (ulpExp x - 1)"
    by (simp add: power_int_diff)
  also have "\<dots> \<le> 2 powi (k - 53)"
    using u by (intro power_int_increasing) simp_all
  finally show ?thesis .
qed

lemma rnd_error:
  assumes "\<bar>x\<bar> \<le> 2 powi k" "- 1022 \<le> k" "k \<le> 1023"
  shows "\<exists>y. rnd x = Fin y \<and> \<bar>y - x\<bar> \<le> 2 powi (k - 53)"
proof -
  have e: "\<bar>round53 x - x\<bar> \<le> 2 powi (k - 53)"
    using assms(1,2) by (rule round53_error)
  have "(2::real) powi (k - 53) < 2 powi 1023"
    using assms(3) by (intro power_int_strict_increasing) simp_all
  moreover have "(2::real) powi k \<le> 2 powi 1023"
    using assms(3) by (intro power_int_increasing) simp_all
  ultimately have "\<bar>round53 x\<bar> < 2 powi 1023 + 2 powi 1023"
    using e assms(1) by linarith
  also have "\<dots> = (2::real) ^ 1024" by simp
  finally have "\<bar>round53 x\<bar> < 2 ^ 1024" .
  then have "rnd x = Fin (round53 x)"
    unfolding rnd_def Let_def by (simp only: abs_less_iff) (simp add: not_le)
  then show ?thesis using e by simp
qed

lemma nsub_Fin: "nsub (Fin x) (Fin y) = rnd (x - y)"
  by (simp add: nsub_def)

lemma round53_eval:
  assumes "2 powi k \<le> \<bar>x\<bar>" "\<bar>x\<bar> < 2 powi (k + 1)" "- 1022 \<le> k"
  shows "round53 x = of_int (roundEven (x / 2 powi (k - 52))) * 2 powi (k - 52)"
proof -
  have "0 < (2::real) powi k" by simp
  then have "0 < \<bar>x\<bar>" using assms(1) by linarith
  then have "x \<noteq> 0" by simp
  moreover have "ulpExp x = k - 52"
    using ulpExp_eval [OF assms(1,2)] assms(3) by simp
  ultimately show ?thesis by (simp add: round53_def)
qed

lemma rnd_eval:
  assumes "2 powi k \<le> \<bar>x\<bar>" "\<bar>x\<bar> < 2 powi (k + 1)" "- 1022 \<le> k" "k \<le> 1022"
  shows "rnd x = Fin (of_int (roundEven (x / 2 powi (k - 52))) * 2 powi (k - 52))"
proof -
  have "\<bar>x\<bar> \<le> 2 powi (k + 1)" using assms(2) by simp
  then obtain y where "rnd x = Fin y"
    using rnd_error [of x "k + 1"] assms(3,4) by auto
  moreover have "rnd x = Fin y \<Longrightarrow> y = round53 x"
    by (simp add: rnd_def Let_def split: if_splits)
  ultimately show ?thesis
    using round53_eval [OF assms(1-3)] by simp
qed

lemma rnd_exact:
  assumes "x = of_int m * 2 powi i" "\<bar>m\<bar> < 2 ^ 53" "- 1074 \<le> i" "\<bar>x\<bar> < 2 ^ 1024"
  shows "rnd x = Fin x"
  using round53_exact [OF assms(1-3)] assms(4)
  unfolding rnd_def Let_def by (simp only: abs_less_iff) (simp add: not_le)

lemma rnd_int:
  assumes "x \<in> \<int>" "\<bar>x\<bar> \<le> 2 ^ 53"
  shows "rnd x = Fin x"
proof -
  obtain m where m: "x = of_int m" using assms(1) by (auto elim: Ints_cases)
  have big: "(2::real) ^ 53 < 2 ^ 1024" by simp
  have bound: "\<bar>m\<bar> \<le> 2 ^ 53"
  proof -
    have "real_of_int \<bar>m\<bar> \<le> real_of_int (2 ^ 53)" using assms(2) m by simp
    then show ?thesis by (simp only: of_int_le_iff)
  qed
  show ?thesis
  proof (cases "\<bar>m\<bar> < 2 ^ 53")
    case True
    have "x = of_int m * 2 powi 0" by (simp add: m)
    then show ?thesis
      using True assms(2) big by (intro rnd_exact [of x m 0]) simp_all
  next
    case False
    then have "\<bar>m\<bar> = 2 ^ 53" using bound by simp
    then consider "m = 2 ^ 53" | "m = - (2 ^ 53)" by linarith
    then show ?thesis
    proof cases
      case 1
      have "x = of_int (2 ^ 52) * 2 powi 1" by (simp add: m 1)
      then show ?thesis
        using assms(2) big by (intro rnd_exact [of x "2 ^ 52" 1]) simp_all
    next
      case 2
      have "x = of_int (- (2 ^ 52)) * 2 powi 1" by (simp add: m 2)
      then show ?thesis
        using assms(2) big by (intro rnd_exact [of x "- (2 ^ 52)" 1]) simp_all
    qed
  qed
qed

lemma nless_negative_small: "nless a (Fin 0) \<Longrightarrow> \<not> nless (Fin 10) a"
  by (cases a) simp_all

lemma rnd_fifth: "rnd (2 / 10) = Fin (3602879701896397 / 2 ^ 54)"
proof -
  have "rnd (2 / 10) =
      Fin (of_int (roundEven (2 / 10 / 2 powi (- 3 - 52))) * 2 powi (- 3 - 52))"
    by (rule rnd_eval) simp_all
  also have "roundEven (2 / 10 / 2 powi (- 3 - 52)) = 7205759403792794"
    by (simp add: roundEven_def)
  finally show ?thesis by simp
qed

lemma rnd_tie_above_2_53: "rnd 9007199254740993 = Fin 9007199254740992"
proof -
  have "rnd 9007199254740993 =
      Fin (of_int (roundEven (9007199254740993 / 2 powi (53 - 52))) * 2 powi (53 - 52))"
    by (rule rnd_eval) simp_all
  also have "roundEven (9007199254740993 / 2 powi (53 - 52)) = 4503599627370496"
    by (simp add: roundEven_def)
  finally show ?thesis by simp
qed

lemma rnd_zero: "rnd 0 = Fin 0"
  by (simp add: rnd_def round53_def)

lemma rnd_half: "rnd (1 / 2) = Fin (1 / 2)"
proof -
  have "(1 / 2 :: real) = of_int 1 * 2 powi (- 1)" by (simp add: power_int_minus)
  then show ?thesis by (rule rnd_exact) simp_all
qed

lemma near_bound:
  fixes x y :: real
  shows "\<bar>x - y\<bar> \<le> e \<Longrightarrow> \<bar>y\<bar> \<le> m \<Longrightarrow> m + e \<le> M \<Longrightarrow> \<bar>x\<bar> \<le> M"
  by linarith

lemma near_trans:
  fixes x y z :: real
  shows "\<bar>x - y\<bar> \<le> e1 \<Longrightarrow> \<bar>y - z\<bar> \<le> e2 \<Longrightarrow> e1 + e2 \<le> e \<Longrightarrow> \<bar>x - z\<bar> \<le> e"
  by linarith

lemma near_shift:
  fixes s s' :: real
  shows "\<bar>s' - (v + k)\<bar> \<le> e1 \<Longrightarrow> \<bar>s - v\<bar> \<le> e2 \<Longrightarrow> e1 + e2 \<le> e \<Longrightarrow> \<bar>s' - (s + k)\<bar> \<le> e"
  by linarith

section \<open>Properties of the escalation policy\<close>

lemma recordViolation_state:
  "fst (recordViolation now pid state violation) =
     state\<lparr>violations := window now (violations state @ [violation])\<rparr>"
  by (simp add: recordViolation_def window_def Let_def)

lemma recordViolation_result:
  "snd (recordViolation now pid state violation) =
     (let kept = window now (violations state @ [violation]);
          nViol = countSeverity Violation kept;
          nWarn = countSeverity Warning kept
      in \<lparr>valid = (nViol < 3 \<and> nWarn < 10),
          reason = Some (details violation),
          severity = Some (if nViol \<ge> 5 then Ban
                           else if nViol \<ge> 3 \<or> nWarn \<ge> 10 then Violation
                           else Warning)\<rparr>)"
  by (simp add: recordViolation_def window_def countSeverity_def Let_def)

text \<open>
  Claim C1. After \<open>recordViolation\<close> has appended the new violation and pruned the log to
  the trailing five minutes, the result follows the counts in that window: five or more
  entries of severity violation give a ban with \<open>valid = false\<close>; otherwise three or more
  give a violation with \<open>valid = false\<close>; otherwise ten or more warnings give a violation
  with \<open>valid = false\<close>; otherwise the result is a warning with \<open>valid = true\<close>.
\<close>

theorem recordViolation_escalation:
  "let kept = window now (violations state @ [violation]);
       nViol = countSeverity Violation kept;
       nWarn = countSeverity Warning kept;
       (state', result) = recordViolation now pid state violation
   in violations state' = kept \<and>
      (if nViol \<ge> 5 then severity result = Some Ban \<and> \<not> valid result
       else if nViol \<ge> 3 then severity result = Some Violation \<and> \<not> valid result
       else if nWarn \<ge> 10 then severity result = Some Violation \<and> \<not> valid result
       else severity result = Some Warning \<and> valid result)"
proof -
  obtain state' result where r: "recordViolation now pid state violation = (state', result)"
    by (cases "recordViolation now pid state violation")
  have s: "state' = fst (recordViolation now pid state violation)"
    and t: "result = snd (recordViolation now pid state violation)"
    using r by simp_all
  have "violations state' = window now (violations state @ [violation])"
    unfolding s recordViolation_state by simp
  moreover have "result =
      (let kept = window now (violations state @ [violation]);
           nViol = countSeverity Violation kept;
           nWarn = countSeverity Warning kept
       in \<lparr>valid = (nViol < 3 \<and> nWarn < 10),
           reason = Some (details violation),
           severity = Some (if nViol \<ge> 5 then Ban
                            else if nViol \<ge> 3 \<or> nWarn \<ge> 10 then Violation
                            else Warning)\<rparr>)"
    unfolding t by (rule recordViolation_result)
  ultimately show ?thesis
    unfolding r by (simp add: Let_def)
qed

text \<open>
  The four branches at time 400000: a fifth and a third violation in the window, a tenth
  warning, and a first violation.
\<close>

theorem recordViolation_escalation_witness:
  "snd (recordViolation 400000 ''p1'' (stateWith 7 fourViolations)
          (sampleViolation Violation 399999)) =
     \<lparr>valid = False, reason = Some [Str ''sample''], severity = Some Ban\<rparr> \<and>
   snd (recordViolation 400000 ''p1'' (stateWith 7 twoViolations)
          (sampleViolation Violation 399999)) =
     \<lparr>valid = False, reason = Some [Str ''sample''], severity = Some Violation\<rparr> \<and>
   snd (recordViolation 400000 ''p1'' (stateWith 7 nineWarnings)
          (sampleViolation Warning 399999)) =
     \<lparr>valid = False, reason = Some [Str ''sample''], severity = Some Violation\<rparr> \<and>
   snd (recordViolation 400000 ''p1'' (stateWith 7 [sampleViolation Violation 50000])
          (sampleViolation Violation 399999)) =
     \<lparr>valid = True, reason = Some [Str ''sample''], severity = Some Warning\<rparr>"
  using
    recordViolation_escalation [of 400000 "stateWith 7 fourViolations"
      "sampleViolation Violation 399999" "''p1''"]
    recordViolation_escalation [of 400000 "stateWith 7 twoViolations"
      "sampleViolation Violation 399999" "''p1''"]
    recordViolation_escalation [of 400000 "stateWith 7 nineWarnings"
      "sampleViolation Warning 399999" "''p1''"]
    recordViolation_escalation [of 400000 "stateWith 7 [sampleViolation Violation 50000]"
      "sampleViolation Violation 399999" "''p1''"]
  by (simp add: recordViolation_def Let_def stateWith_def fourViolations_def
      twoViolations_def nineWarnings_def sampleViolation_def newPlayerState_def)

text \<open>
  Claim C10. \<open>getViolationSummary\<close> reports no warnings, no violations and no ban for a
  player without validation state. For a player with state it counts the entries of the
  trailing five minutes, and \<open>shouldBan\<close> holds exactly when there are five violations or
  more, or three violations or more together with five warnings or more. This is not the
  ban rule of \<open>recordViolation\<close>: with three violations and six warnings in the window
  \<open>recordViolation\<close> answers with a violation, not a ban, while the summary of the same
  log says \<open>shouldBan\<close>.
\<close>

theorem getViolationSummary_shouldBan:
  "(playerStates pid = None \<longrightarrow>
      getViolationSummary now playerStates pid =
        \<lparr>s_warnings = 0, s_violations = 0, shouldBan = False\<rparr>) \<and>
   (\<forall>state. playerStates pid = Some state \<longrightarrow>
      (let recent = window now (violations state);
           w = countSeverity Warning recent;
           v = countSeverity Violation recent
       in getViolationSummary now playerStates pid =
            \<lparr>s_warnings = w, s_violations = v,
             shouldBan = (v \<ge> 5 \<or> (v \<ge> 3 \<and> w \<ge> 5))\<rparr>)) \<and>
   (let (state', result) =
          recordViolation 400000 ''p1'' (stateWith 7 threeAndFive)
            (sampleViolation Warning 399999)
    in severity result = Some Violation \<and>
       shouldBan (getViolationSummary 400000 [''p1'' \<mapsto> state'] ''p1''))"
proof (intro conjI allI impI)
  assume "playerStates pid = None"
  then show "getViolationSummary now playerStates pid =
        \<lparr>s_warnings = 0, s_violations = 0, shouldBan = False\<rparr>"
    by (simp add: getViolationSummary_def)
next
  fix state
  assume "playerStates pid = Some state"
  then show "let recent = window now (violations state);
           w = countSeverity Warning recent;
           v = countSeverity Violation recent
       in getViolationSummary now playerStates pid =
            \<lparr>s_warnings = w, s_violations = v,
             shouldBan = (v \<ge> 5 \<or> (v \<ge> 3 \<and> w \<ge> 5))\<rparr>"
    by (simp add: getViolationSummary_def window_def countSeverity_def Let_def)
next
  show "let (state', result) =
          recordViolation 400000 ''p1'' (stateWith 7 threeAndFive)
            (sampleViolation Warning 399999)
    in severity result = Some Violation \<and>
       shouldBan (getViolationSummary 400000 [''p1'' \<mapsto> state'] ''p1'')"
    by (simp add: recordViolation_def getViolationSummary_def Let_def stateWith_def
        threeAndFive_def sampleViolation_def newPlayerState_def)
qed

text \<open>
  An unknown player, a log with four violations and one warning in the window, one with
  three violations and five warnings, and one with five violations.
\<close>

theorem getViolationSummary_shouldBan_witness:
  "getViolationSummary 400000 Map.empty ''p1'' =
     \<lparr>s_warnings = 0, s_violations = 0, shouldBan = False\<rparr> \<and>
   getViolationSummary 400000 [''p1'' \<mapsto> stateWith 7 fourViolations] ''p1'' =
     \<lparr>s_warnings = 1, s_violations = 4, shouldBan = False\<rparr> \<and>
   getViolationSummary 400000 [''p1'' \<mapsto> stateWith 7 threeAndFive] ''p1'' =
     \<lparr>s_warnings = 5, s_violations = 3, shouldBan = True\<rparr> \<and>
   getViolationSummary 400000
       [''p1'' \<mapsto> stateWith 7 (sampleViolation Violation 399999 # fourViolations)] ''p1'' =
     \<lparr>s_warnings = 1, s_violations = 5, shouldBan = True\<rparr>"
  using getViolationSummary_shouldBan [of Map.empty "''p1''" 400000]
    getViolationSummary_shouldBan [of "[''p1'' \<mapsto> stateWith 7 fourViolations]" "''p1''" 400000]
    getViolationSummary_shouldBan [of "[''p1'' \<mapsto> stateWith 7 threeAndFive]" "''p1''" 400000]
    getViolationSummary_shouldBan
      [of "[''p1'' \<mapsto> stateWith 7 (sampleViolation Violation 399999 # fourViolations)]"
        "''p1''" 400000]
  by (simp add: Let_def window_def countSeverity_def stateWith_def fourViolations_def
      threeAndFive_def sampleViolation_def newPlayerState_def)

section \<open>Properties of the sequence check\<close>

lemma validateSequence_first:
  "lastSequence state = Fin (- 1) \<Longrightarrow>
   validateSequence now rnow packet state = (state\<lparr>lastSequence := sequence packet\<rparr>, okResult)"
  by (simp add: validateSequence_def)

lemma validateSequence_negative:
  "lastSequence state \<noteq> Fin (- 1) \<Longrightarrow>
   nless (nsub (sequence packet) (nadd (lastSequence state) (Fin 1))) (Fin 0) \<Longrightarrow>
   validateSequence now rnow packet state =
     (state, \<lparr>valid = False, reason = Some [Str ''Duplicate or out-of-order packet''],
              severity = None\<rparr>)"
  by (simp add: validateSequence_def MAX_SEQUENCE_GAP_def Let_def nless_negative_small)

lemma validateSequence_small:
  "lastSequence state \<noteq> Fin (- 1) \<Longrightarrow>
   \<not> nless (nsub (sequence packet) (nadd (lastSequence state) (Fin 1))) (Fin 0) \<Longrightarrow>
   \<not> nless (Fin 10) (nsub (sequence packet) (nadd (lastSequence state) (Fin 1))) \<Longrightarrow>
   validateSequence now rnow packet state = (state\<lparr>lastSequence := sequence packet\<rparr>, okResult)"
  by (simp add: validateSequence_def MAX_SEQUENCE_GAP_def Let_def)

lemma validateSequence_large:
  "lastSequence state \<noteq> Fin (- 1) \<Longrightarrow>
   nless (Fin 10) (nsub (sequence packet) (nadd (lastSequence state) (Fin 1))) \<Longrightarrow>
   validateSequence now rnow packet state =
     recordViolation rnow (playerId packet) state (gapWarning now packet state)"
  by (simp add: validateSequence_def MAX_SEQUENCE_GAP_def Let_def gapWarning_def)

lemma gap_exact:
  assumes "\<bar>l + 1\<bar> \<le> 2 ^ 53" "\<bar>s - (l + 1)\<bar> \<le> 2 ^ 53"
  shows "nsub (Fin (of_int s)) (nadd (Fin (of_int l)) (Fin 1)) = Fin (of_int (s - (l + 1)))"
proof -
  have "\<bar>real_of_int (l + 1)\<bar> \<le> 2 ^ 53"
    using assms(1) by (metis of_int_abs of_int_le_numeral_power_cancel_iff)
  then have "rnd (of_int l + 1) = Fin (of_int l + 1)"
    by (intro rnd_int) simp_all
  moreover have "\<bar>real_of_int (s - (l + 1))\<bar> \<le> 2 ^ 53"
    using assms(2) by (metis of_int_abs of_int_le_numeral_power_cancel_iff)
  then have "rnd (of_int s - (of_int l + 1)) = Fin (of_int s - (of_int l + 1))"
    by (intro rnd_int) simp_all
  ultimately show ?thesis
    by (simp add: nsub_Fin)
qed

text \<open>
  Claim C3, as amended. Let \<open>g\<close> be the gap as the code computes it in double arithmetic,
  \<open>packet.sequence - (lastSequence + 1)\<close>; it is the exact difference whenever both numbers
  are integers and \<open>lastSequence + 1\<close> and the difference are at most \<open>2 ^ 53\<close> in
  magnitude. A packet that finds the counter at \<open>-1\<close> (the first packet, or any packet
  after one numbered \<open>-1\<close>) is accepted and seeds the counter with its sequence number.
  Otherwise: \<open>g < 0\<close> is a hard reject, \<open>valid = false\<close> without a severity, and the
  state, its violation log included, stays as it was; a gap that is neither below 0 nor
  above 10 is accepted, the counter moves to \<open>packet.sequence\<close> and nothing is logged;
  \<open>g > 10\<close> appends a violation of severity warning to the log, which is pruned to the
  five-minute window, and the packet stays valid, with a warning as its result, exactly
  while that window holds fewer than three violations and fewer than ten warnings.
\<close>

theorem validateSequence_gap:
  "let gap = nsub (sequence packet) (nadd (lastSequence state) (Fin 1));
       (state', result) = validateSequence now rnow packet state
   in (lastSequence state = Fin (- 1) \<longrightarrow>
         result = okResult \<and> state' = state\<lparr>lastSequence := sequence packet\<rparr>) \<and>
      (lastSequence state \<noteq> Fin (- 1) \<and> nless gap (Fin 0) \<longrightarrow>
         \<not> valid result \<and> severity result = None \<and> state' = state) \<and>
      (lastSequence state \<noteq> Fin (- 1) \<and> \<not> nless gap (Fin 0) \<and> \<not> nless (Fin 10) gap \<longrightarrow>
         result = okResult \<and> state' = state\<lparr>lastSequence := sequence packet\<rparr>) \<and>
      (lastSequence state \<noteq> Fin (- 1) \<and> nless (Fin 10) gap \<longrightarrow>
         (let logged = window rnow (violations state @ [gapWarning now packet state])
          in violations state' = logged \<and>
             v_severity (gapWarning now packet state) = Warning \<and>
             valid result =
               (countSeverity Violation logged < 3 \<and> countSeverity Warning logged < 10) \<and>
             (valid result \<longrightarrow> severity result = Some Warning))) \<and>
      (\<forall>l s. lastSequence state = Fin (of_int l) \<and> sequence packet = Fin (of_int s) \<and>
          \<bar>l + 1\<bar> \<le> 2 ^ 53 \<and> \<bar>s - (l + 1)\<bar> \<le> 2 ^ 53 \<longrightarrow>
          gap = Fin (of_int (s - (l + 1))))"
proof -
  define gap where "gap = nsub (sequence packet) (nadd (lastSequence state) (Fin 1))"
  obtain state' result where r: "validateSequence now rnow packet state = (state', result)"
    by (cases "validateSequence now rnow packet state")
  have first: "result = okResult \<and> state' = state\<lparr>lastSequence := sequence packet\<rparr>"
    if "lastSequence state = Fin (- 1)"
    using validateSequence_first [OF that, of now rnow packet] r by simp
  have neg: "\<not> valid result \<and> severity result = None \<and> state' = state"
    if "lastSequence state \<noteq> Fin (- 1)" "nless gap (Fin 0)"
    using validateSequence_negative [of state packet now rnow] that r by (auto simp: gap_def)
  have small: "result = okResult \<and> state' = state\<lparr>lastSequence := sequence packet\<rparr>"
    if "lastSequence state \<noteq> Fin (- 1)" "\<not> nless gap (Fin 0)" "\<not> nless (Fin 10) gap"
    using validateSequence_small [of state packet now rnow] that r by (simp add: gap_def)
  have large: "let logged = window rnow (violations state @ [gapWarning now packet state])
          in violations state' = logged \<and>
             v_severity (gapWarning now packet state) = Warning \<and>
             valid result =
               (countSeverity Violation logged < 3 \<and> countSeverity Warning logged < 10) \<and>
             (valid result \<longrightarrow> severity result = Some Warning)"
    if "lastSequence state \<noteq> Fin (- 1)" "nless (Fin 10) gap"
  proof -
    have e: "recordViolation rnow (playerId packet) state (gapWarning now packet state)
              = (state', result)"
      using validateSequence_large [of state packet now rnow] that r by (simp add: gap_def)
    have "state' = fst (recordViolation rnow (playerId packet) state (gapWarning now packet state))"
      and "result = snd (recordViolation rnow (playerId packet) state (gapWarning now packet state))"
      using e by simp_all
    then show ?thesis
      unfolding recordViolation_state recordViolation_result
      by (simp add: Let_def gapWarning_def)
  qed
  have exact: "gap = Fin (of_int (s - (l + 1)))"
    if "lastSequence state = Fin (of_int l)" "sequence packet = Fin (of_int s)"
      "\<bar>l + 1\<bar> \<le> 2 ^ 53" "\<bar>s - (l + 1)\<bar> \<le> 2 ^ 53" for l s
    unfolding gap_def that(1,2) using that(3,4) by (rule gap_exact)
  show ?thesis
    unfolding r gap_def [symmetric] Let_def using first neg small large exact
    by (simp add: Let_def)
qed

text \<open>
  The claim as first stated fails in five ways. With the counter at 5, sequence number 8
  (\<open>g = 2\<close>) is accepted and no warning is logged; sequence number 20 (\<open>g = 14\<close>) is
  accepted while the counter stays at 5. After a first packet numbered \<open>-1\<close> the counter
  is still \<open>-1\<close>, so a second packet numbered \<open>-50\<close> (\<open>g = -50\<close>) is accepted. With nine
  warnings and one violation in the window, sequence number 20 at counter 5 is the tenth
  warning and the result is invalid. With the counter at \<open>2 ^ 53\<close> a second packet numbered
  \<open>2 ^ 53\<close> (\<open>g = -1\<close>) is accepted, because \<open>2 ^ 53 + 1\<close> rounds back to \<open>2 ^ 53\<close>.
\<close>

theorem validateSequence_gap_counterexample:
  "(let (state', result) =
          validateSequence 400000 400000 (actionPacket ''p1'' 400000 8) (stateWith 5 [])
    in valid result \<and> violations state' = []) \<and>
   (let (state', result) =
          validateSequence 400000 400000 (actionPacket ''p1'' 400000 20) (stateWith 5 [])
    in valid result \<and> lastSequence state' = Fin 5) \<and>
   (let (state1, result1) =
          validateSequence 400000 400000 (actionPacket ''p1'' 400000 (- 1)) newPlayerState;
        (state2, result2) =
          validateSequence 400000 400000 (actionPacket ''p1'' 400000 (- 50)) state1
    in valid result1 \<and> valid result2 \<and> lastSequence state2 = Fin (- 50)) \<and>
   (let (state', result) =
          validateSequence 400000 400000 (actionPacket ''p1'' 400000 20)
            (stateWith 5 nineWarnings)
    in \<not> valid result \<and> severity result = Some Violation) \<and>
   (let (state', result) =
          validateSequence 400000 400000 (actionPacket ''p1'' 400000 9007199254740992)
            (stateWith 9007199254740992 [])
    in valid result)"
  by (simp add: validateSequence_def recordViolation_def actionPacket_def stateWith_def
      newPlayerState_def okResult_def MAX_SEQUENCE_GAP_def Let_def nsub_def rnd_int
      rnd_tie_above_2_53 nineWarnings_def sampleViolation_def)

text \<open>
  A first packet; then, with the counter at 5: a duplicate (\<open>g = -1\<close>), the largest
  tolerated gap (\<open>g = 10\<close>) and the smallest flagged one (\<open>g = 11\<close>).
\<close>

theorem validateSequence_gap_witness:
  "validateSequence 1000 1001 (actionPacket ''p1'' 1000 0) newPlayerState =
     (stateWith 0 [], okResult) \<and>
   fst (validateSequence 1000 1001 (actionPacket ''p1'' 1000 5) (stateWith 5 [])) =
     stateWith 5 [] \<and>
   \<not> valid (snd (validateSequence 1000 1001 (actionPacket ''p1'' 1000 5) (stateWith 5 []))) \<and>
   severity (snd (validateSequence 1000 1001 (actionPacket ''p1'' 1000 5) (stateWith 5 []))) =
     None \<and>
   validateSequence 1000 1001 (actionPacket ''p1'' 1000 16) (stateWith 5 []) =
     (stateWith 16 [], okResult) \<and>
   violations (fst (validateSequence 1000 1001 (actionPacket ''p1'' 1000 17) (stateWith 5 []))) =
     [gapWarning 1000 (actionPacket ''p1'' 1000 17) (stateWith 5 [])] \<and>
   valid (snd (validateSequence 1000 1001 (actionPacket ''p1'' 1000 17) (stateWith 5 []))) \<and>
   nsub (sequence (actionPacket ''p1'' 1000 17))
        (nadd (lastSequence (stateWith 5 [])) (Fin 1)) = Fin 11"
  using validateSequence_gap [of "actionPacket ''p1'' 1000 0" newPlayerState 1000 1001]
    validateSequence_gap [of "actionPacket ''p1'' 1000 5" "stateWith 5 []" 1000 1001]
    validateSequence_gap [of "actionPacket ''p1'' 1000 16" "stateWith 5 []" 1000 1001]
    validateSequence_gap [of "actionPacket ''p1'' 1000 17" "stateWith 5 []" 1000 1001]
  by (simp add: Let_def actionPacket_def stateWith_def newPlayerState_def window_def
      countSeverity_def gapWarning_def okResult_def nsub_def rnd_int split: prod.splits)

section \<open>Properties of the lobby relay\<close>

lemma sentMessages_append: "sentMessages (xs @ ys) = sentMessages xs @ sentMessages ys"
  by (induction xs rule: sentMessages.induct) simp_all

lemma closedSockets_append: "closedSockets (xs @ ys) = closedSockets xs @ closedSockets ys"
  by (induction xs rule: closedSockets.induct) simp_all

lemma sentMessages_broadcast:
  "sentMessages (broadcastToOthers conns (playerId packet) packet) = relayTargets conns packet"
  by (induction conns) (auto simp: broadcastToOthers_def relayTargets_def)

lemma closedSockets_broadcast: "closedSockets (broadcastToOthers conns sender packet) = []"
  by (induction conns) (auto simp: broadcastToOthers_def)

text \<open>A ban never comes with \<open>valid = true\<close>, whichever stage of the validator produced it.\<close>

lemma recordViolation_ban_invalid:
  "severity (snd (recordViolation now pid state violation)) = Some Ban \<Longrightarrow>
   \<not> valid (snd (recordViolation now pid state violation))"
  unfolding recordViolation_result by (simp add: Let_def split: if_splits)

lemma validateTimestamp_ban_invalid:
  "severity (snd (validateTimestamp now rnow packet state)) = Some Ban \<Longrightarrow>
   \<not> valid (snd (validateTimestamp now rnow packet state))"
  using recordViolation_ban_invalid
  by (auto simp: validateTimestamp_def okResult_def split: if_splits)

lemma validateSequence_ban_invalid:
  "severity (snd (validateSequence now rnow packet state)) = Some Ban \<Longrightarrow>
   \<not> valid (snd (validateSequence now rnow packet state))"
  using recordViolation_ban_invalid
  by (auto simp: validateSequence_def okResult_def Let_def split: if_splits)

lemma validatePosition_ban_invalid:
  "severity (snd (validatePosition now rnow position pid state)) = Some Ban \<Longrightarrow>
   \<not> valid (snd (validatePosition now rnow position pid state))"
  using recordViolation_ban_invalid
  by (auto simp: validatePosition_def okResult_def Let_def case_prod_beta
      split: if_splits option.splits)

lemma validateShoot_ban_invalid:
  "severity (snd (validateShoot now rnow shoot pid state)) = Some Ban \<Longrightarrow>
   \<not> valid (snd (validateShoot now rnow shoot pid state))"
  using recordViolation_ban_invalid
  by (auto simp: validateShoot_def okResult_def Let_def case_prod_beta
      split: if_splits option.splits)

lemma validatePacket_ban_invalid:
  "severity (snd (validatePacket clk playerStates packet)) = Some Ban \<Longrightarrow>
   \<not> valid (snd (validatePacket clk playerStates packet))"
  using validateTimestamp_ban_invalid validateSequence_ban_invalid
    validatePosition_ban_invalid validateShoot_ban_invalid
  by (auto simp: validatePacket_def okResult_def Let_def case_prod_beta
      split: if_splits PacketData.splits)

text \<open>
  Claim C2, as amended. \<open>handleGamePacket\<close> keeps the validator's state. When validation
  returns severity ban, the sender's socket gets the kick notice and is closed, and nothing
  else is sent, so the packet reaches no other member. On every other result, a violation
  that is not a ban included, the packet is relayed unchanged to every connection whose
  player id is not the packet's, and no socket is closed.
\<close>

theorem handleGamePacket_dispatch:
  "let (states', result) = validatePacket clk playerStates packet;
       (states'', effects) = handleGamePacket clk playerStates conns ws packet
   in states'' = states' \<and>
      (if severity result = Some Ban
       then sentMessages effects =
              [(ws, Kicked (Str ''Anti-cheat violation: '' # reasonText (reason result)))] \<and>
            closedSockets effects = [ws]
       else sentMessages effects = relayTargets conns packet \<and> closedSockets effects = [])"
proof -
  obtain states' result where v: "validatePacket clk playerStates packet = (states', result)"
    by (cases "validatePacket clk playerStates packet")
  have "\<not> valid result" if "severity result = Some Ban"
    using validatePacket_ban_invalid [of clk playerStates packet] that v by simp
  then show ?thesis
    unfolding v handleGamePacket_def
    by (auto simp: v Let_def sentMessages_append closedSockets_append
        sentMessages_broadcast closedSockets_broadcast)
qed

text \<open>
  A violation that is not a ban does not stop the relay: the packet below is stamped in the
  future and is the third violation in the window, so its result is an invalid violation,
  and it still reaches the members \<open>p2\<close> and \<open>p3\<close>.
\<close>

theorem handleGamePacket_violation_counterexample:
  "(let packet = actionPacket ''p1'' 999999 8;
        states = [''p1'' \<mapsto> stateWith 7 twoViolations];
        (states', result) = validatePacket (clockAt 400000) states packet;
        (states'', effects) = handleGamePacket (clockAt 400000) states threeMembers 1 packet
    in \<not> valid result \<and> severity result = Some Violation \<and>
       sentMessages effects = [(2, Relayed packet), (3, Relayed packet)])"
  by (simp add: handleGamePacket_def validatePacket_def getPlayerState_def
      validateTimestamp_def recordViolation_def broadcastToOthers_def
      actionPacket_def stateWith_def twoViolations_def sampleViolation_def newPlayerState_def
      clockAt_def threeMembers_def Let_def)

text \<open>A fifth violation in the window (ban), and a clean packet.\<close>

theorem handleGamePacket_dispatch_witness:
  "sentMessages (snd (handleGamePacket (clockAt 400000) [''p1'' \<mapsto> stateWith 7 fourViolations]
      threeMembers 1 (actionPacket ''p1'' 999999 8))) =
     [(1, Kicked [Str ''Anti-cheat violation: '', Str ''Packet timestamp '', Num 999999,
                  Str '' is in the future''])] \<and>
   closedSockets (snd (handleGamePacket (clockAt 400000) [''p1'' \<mapsto> stateWith 7 fourViolations]
      threeMembers 1 (actionPacket ''p1'' 999999 8))) = [1] \<and>
   sentMessages (snd (handleGamePacket (clockAt 400000) [''p1'' \<mapsto> stateWith 7 fourViolations]
      threeMembers 1 (actionPacket ''p1'' 400000 8))) =
     [(2, Relayed (actionPacket ''p1'' 400000 8)), (3, Relayed (actionPacket ''p1'' 400000 8))] \<and>
   closedSockets (snd (handleGamePacket (clockAt 400000) [''p1'' \<mapsto> stateWith 7 fourViolations]
      threeMembers 1 (actionPacket ''p1'' 400000 8))) = []"
  using handleGamePacket_dispatch [of "clockAt 400000" "[''p1'' \<mapsto> stateWith 7 fourViolations]"
      "actionPacket ''p1'' 999999 8" threeMembers 1]
    handleGamePacket_dispatch [of "clockAt 400000" "[''p1'' \<mapsto> stateWith 7 fourViolations]"
      "actionPacket ''p1'' 400000 8" threeMembers 1]
  by (simp add: validatePacket_def getPlayerState_def validateSequence_def
      validateTimestamp_def recordViolation_def relayTargets_def reasonText_def okResult_def
      actionPacket_def stateWith_def fourViolations_def sampleViolation_def newPlayerState_def
      clockAt_def threeMembers_def Let_def MAX_SEQUENCE_GAP_def nsub_def rnd_int
      split: prod.splits)

lemma validateTimestamp_lastSequence:
  "lastSequence (fst (validateTimestamp now rnow packet state)) = lastSequence state"
  by (simp add: validateTimestamp_def recordViolation_state)

lemma validatePacket_duplicate:
  assumes st: "playerStates (playerId packet) = Some state"
    and ts: "valid (snd (validateTimestamp (ts_now clk) (ts_rnow clk) packet state))"
    and seeded: "lastSequence state \<noteq> Fin (- 1)"
    and gap: "nless (nsub (sequence packet) (nadd (lastSequence state) (Fin 1))) (Fin 0)"
  shows "snd (validatePacket clk playerStates packet) =
           \<lparr>valid = False, reason = Some [Str ''Duplicate or out-of-order packet''],
            severity = None\<rparr>"
proof -
  obtain state1 r1 where t: "validateTimestamp (ts_now clk) (ts_rnow clk) packet state = (state1, r1)"
    by (cases "validateTimestamp (ts_now clk) (ts_rnow clk) packet state")
  have "lastSequence state1 = lastSequence state"
    using validateTimestamp_lastSequence [of "ts_now clk" "ts_rnow clk" packet state] t by simp
  then have "validateSequence (seq_now clk) (seq_rnow clk) packet state1 =
      (state1, \<lparr>valid = False, reason = Some [Str ''Duplicate or out-of-order packet''],
                severity = None\<rparr>)"
    using seeded gap by (intro validateSequence_negative) simp_all
  moreover have "valid r1" using ts t by simp
  ultimately show ?thesis
    by (simp add: validatePacket_def getPlayerState_def st t Let_def)
qed

text \<open>
  Claim C9. When the validation result is invalid and carries no severity,
  \<open>handleGamePacket\<close> does nothing but relay the packet unchanged to every connection whose
  player id is not the packet's; it closes no socket. A duplicate or out-of-order packet
  (the gap computed by the sequence check is negative, the counter is already seeded, the
  time stamp stage passed) is such a result.
\<close>

theorem handleGamePacket_hard_reject:
  "let (states', result) = validatePacket clk playerStates packet;
       (states'', effects) = handleGamePacket clk playerStates conns ws packet
   in (\<not> valid result \<and> severity result = None \<longrightarrow>
         effects = broadcastToOthers conns (playerId packet) packet \<and>
         sentMessages effects = relayTargets conns packet \<and> closedSockets effects = []) \<and>
      (\<forall>state. playerStates (playerId packet) = Some state \<and>
          valid (snd (validateTimestamp (ts_now clk) (ts_rnow clk) packet state)) \<and>
          lastSequence state \<noteq> Fin (- 1) \<and>
          nless (nsub (sequence packet) (nadd (lastSequence state) (Fin 1))) (Fin 0) \<longrightarrow>
          \<not> valid result \<and> severity result = None)"
proof -
  obtain states' result where v: "validatePacket clk playerStates packet = (states', result)"
    by (cases "validatePacket clk playerStates packet")
  have a: "snd (handleGamePacket clk playerStates conns ws packet) =
      broadcastToOthers conns (playerId packet) packet"
    if "\<not> valid result" "severity result = None"
    using that by (simp add: handleGamePacket_def v)
  have b: "\<not> valid result \<and> severity result = None"
    if "playerStates (playerId packet) = Some state"
      "valid (snd (validateTimestamp (ts_now clk) (ts_rnow clk) packet state))"
      "lastSequence state \<noteq> Fin (- 1)"
      "nless (nsub (sequence packet) (nadd (lastSequence state) (Fin 1))) (Fin 0)" for state
    using validatePacket_duplicate [of playerStates packet state clk] that v by simp
  show ?thesis
    unfolding v using a b
    by (auto simp: sentMessages_broadcast closedSockets_broadcast split: prod.splits)
qed

text \<open>With the counter at 7, a second packet numbered 7 is relayed to \<open>p2\<close> and \<open>p3\<close>.\<close>

theorem handleGamePacket_hard_reject_witness:
  "snd (validatePacket (clockAt 400000) [''p1'' \<mapsto> stateWith 7 twoViolations]
         (actionPacket ''p1'' 400000 7)) =
     \<lparr>valid = False, reason = Some [Str ''Duplicate or out-of-order packet''], severity = None\<rparr> \<and>
   snd (handleGamePacket (clockAt 400000) [''p1'' \<mapsto> stateWith 7 twoViolations]
         threeMembers 1 (actionPacket ''p1'' 400000 7)) =
     [Send 2 (Relayed (actionPacket ''p1'' 400000 7)),
      Send 3 (Relayed (actionPacket ''p1'' 400000 7))]"
  using handleGamePacket_hard_reject [of "clockAt 400000" "[''p1'' \<mapsto> stateWith 7 twoViolations]"
      "actionPacket ''p1'' 400000 7" threeMembers 1]
  by (simp add: validatePacket_def getPlayerState_def validateSequence_def
      validateTimestamp_def broadcastToOthers_def okResult_def
      actionPacket_def stateWith_def twoViolations_def sampleViolation_def newPlayerState_def
      clockAt_def threeMembers_def Let_def MAX_SEQUENCE_GAP_def nsub_def rnd_int
      split: prod.splits)

section \<open>Properties of the latency average\<close>

lemma recordAll_snoc:
  "recordAll h (records @ [(p, s)]) = recordPingSample (recordAll h records) p s"
  by (simp add: recordAll_def)

lemma samplesOf_snoc:
  "samplesOf pid (records @ [(p, s)]) =
     (if p = pid then samplesOf pid records @ [s] else samplesOf pid records)"
  by (simp add: samplesOf_def)

lemma lastSamples_length: "length (lastSamples xs) \<le> 5"
  by (simp add: lastSamples_def PING_SAMPLE_COUNT_def)

lemma lastSamples_nonempty: "xs \<noteq> [] \<Longrightarrow> lastSamples xs \<noteq> []"
  by (cases xs) (simp_all add: lastSamples_def PING_SAMPLE_COUNT_def)

lemma shift_lastSamples:
  "(if length (lastSamples xs @ [s]) > PING_SAMPLE_COUNT
    then tl (lastSamples xs @ [s]) else lastSamples xs @ [s]) = lastSamples (xs @ [s])"
proof (cases "length xs < 5")
  case True
  then show ?thesis by (simp add: lastSamples_def PING_SAMPLE_COUNT_def)
next
  case False
  define n where "n = length xs - 5"
  have n: "length xs = n + 5" using False by (simp add: n_def)
  have "drop n xs \<noteq> []" using n by simp
  then have "tl (drop n xs @ [s]) = drop (Suc n) xs @ [s]"
    by (simp add: drop_Suc tl_drop)
  moreover have "lastSamples xs = drop n xs"
    by (simp add: lastSamples_def PING_SAMPLE_COUNT_def n)
  moreover have "lastSamples (xs @ [s]) = drop (Suc n) xs @ [s]"
    by (simp add: lastSamples_def PING_SAMPLE_COUNT_def n)
  ultimately show ?thesis
    by (simp add: PING_SAMPLE_COUNT_def n)
qed

lemma recordAll_history:
  "h pid = None \<Longrightarrow>
   recordAll h records pid =
     (if samplesOf pid records = [] then None else Some (lastSamples (samplesOf pid records)))"
proof (induction records rule: rev_induct)
  case Nil
  then show ?case by (simp add: recordAll_def samplesOf_def)
next
  case (snoc r records)
  obtain p s where r: "r = (p, s)" by (cases r)
  show ?case
  proof (cases "p = pid")
    case False
    then show ?thesis
      using snoc by (simp add: r recordAll_snoc samplesOf_snoc recordPingSample_def Let_def)
  next
    case True
    have "lastSamples [] = []" by (simp add: lastSamples_def)
    then have "(case recordAll h records pid of Some hist \<Rightarrow> hist | None \<Rightarrow> []) =
        lastSamples (samplesOf pid records)"
      using snoc by simp
    then show ?thesis
      using True shift_lastSamples [of "samplesOf pid records" s]
      by (simp add: r recordAll_snoc samplesOf_snoc recordPingSample_def Let_def)
  qed
qed

lemma foldl_nadd_exact:
  "(\<forall>k\<in>set ks. \<bar>k\<bar> \<le> 2 ^ 49) \<Longrightarrow> \<bar>a\<bar> + 2 ^ 49 * int (length ks) \<le> 2 ^ 53 \<Longrightarrow>
   foldl nadd (Fin (of_int a)) (map (\<lambda>k. Fin (of_int k)) ks) = Fin (of_int (a + sum_list ks))"
proof (induction ks arbitrary: a)
  case Nil
  then show ?case by simp
next
  case (Cons k ks)
  have k: "\<bar>k\<bar> \<le> 2 ^ 49" using Cons.prems(1) by simp
  have b: "\<bar>a + k\<bar> \<le> 2 ^ 53" using k Cons.prems(2) by simp
  have "\<bar>real_of_int (a + k)\<bar> \<le> 2 ^ 53"
    using b by (simp only: of_int_abs [symmetric] of_int_le_numeral_power_cancel_iff)
  then have step: "rnd (real_of_int a + real_of_int k) = Fin (real_of_int a + real_of_int k)"
    using rnd_int [of "real_of_int (a + k)"] by simp
  have "\<bar>a + k\<bar> + 2 ^ 49 * int (length ks) \<le> 2 ^ 53"
    using k Cons.prems(2) by simp
  then have "foldl nadd (Fin (of_int (a + k))) (map (\<lambda>k. Fin (of_int k)) ks) =
      Fin (of_int (a + k + sum_list ks))"
    using Cons.IH [of "a + k"] Cons.prems(1) by simp
  then show ?case by (simp add: step add.assoc)
qed

lemma sum_list_bound:
  "(\<forall>k\<in>set ks. \<bar>k\<bar> \<le> b) \<Longrightarrow> \<bar>sum_list ks\<bar> \<le> b * int (length ks)" for b :: int
proof (induction ks)
  case Nil
  then show ?case by simp
next
  case (Cons k ks)
  then have "\<bar>k\<bar> \<le> b" "\<bar>sum_list ks\<bar> \<le> b * int (length ks)" by simp_all
  then show ?case by (simp add: algebra_simps)
qed

lemma round_quotient:
  fixes S :: int and n :: nat
  assumes n: "1 \<le> n" "n \<le> 5" and S: "\<bar>S\<bar> \<le> 2 ^ 49 * int n"
  shows "Math_round (ndivPos (Fin (of_int S)) (real n)) =
         Fin (of_int (nearestInt (of_int S / real n)))"
proof -
  define q where "q = real_of_int S / real n"
  define t where "t = \<lfloor>q + 1 / 2\<rfloor>"
  have npos: "0 < real n" using n by simp
  have n5: "real n \<le> 5" using n by simp
  have "\<bar>real_of_int S\<bar> \<le> 2 ^ 49 * real n"
  proof -
    have "real_of_int \<bar>S\<bar> \<le> real_of_int (2 ^ 49 * int n)" using S by (simp only: of_int_le_iff)
    then show ?thesis by simp
  qed
  then have qb: "\<bar>q\<bar> \<le> 2 ^ 49"
    using npos by (simp add: q_def field_simps)
  then have "\<bar>q\<bar> \<le> 2 powi 49" by simp
  then obtain y where y: "rnd q = Fin y" and err: "\<bar>y - q\<bar> \<le> 2 powi (49 - 53)"
    using rnd_error [of q 49] by auto
  have err': "\<bar>y - q\<bar> \<le> 1 / 16" using err by (simp add: power_int_minus)
  have lo: "real_of_int t \<le> q + 1 / 2" and hi: "q + 1 / 2 < real_of_int t + 1"
    unfolding t_def by linarith+
  have qn: "q * real n = real_of_int S" using npos by (simp add: q_def)
  have hi_int: "2 * S + int n < 2 * int n * t + 2 * int n"
  proof -
    have "(q + 1 / 2) * (2 * real n) < (real_of_int t + 1) * (2 * real n)"
      using hi npos by simp
    then have "2 * real_of_int S + real n < 2 * real n * real_of_int t + 2 * real n"
      using qn by (simp add: algebra_simps)
    then have "real_of_int (2 * S + int n) < real_of_int (2 * int n * t + 2 * int n)"
      by simp
    then show ?thesis by (simp only: of_int_less_iff)
  qed
  have lo_int: "2 * int n * t \<le> 2 * S + int n"
  proof -
    have "real_of_int t * (2 * real n) \<le> (q + 1 / 2) * (2 * real n)"
      using lo npos by simp
    then have "2 * real n * real_of_int t \<le> 2 * real_of_int S + real n"
      using qn by (simp add: algebra_simps)
    then have "real_of_int (2 * int n * t) \<le> real_of_int (2 * S + int n)"
      by simp
    then show ?thesis by (simp only: of_int_le_iff)
  qed
  have upper: "y + 1 / 2 < real_of_int t + 1"
  proof -
    have "2 * S + int n + 1 \<le> 2 * int n * t + 2 * int n" using hi_int by simp
    then have "real_of_int (2 * S + int n + 1) \<le> real_of_int (2 * int n * t + 2 * int n)"
      by (simp only: of_int_le_iff)
    then have "2 * (q * real n) + real n + 1 \<le> 2 * real n * real_of_int t + 2 * real n"
      by (simp add: qn)
    then have "(q + 1 / 2) * (2 * real n) \<le> (real_of_int t + 1) * (2 * real n) - 1"
      by (simp add: algebra_simps)
    then have "q + 1 / 2 \<le> ((real_of_int t + 1) * (2 * real n) - 1) / (2 * real n)"
      using npos by (simp add: pos_le_divide_eq)
    also have "\<dots> = real_of_int t + 1 - 1 / (2 * real n)"
      using npos by (simp add: field_simps)
    also have "\<dots> \<le> real_of_int t + 1 - 1 / 10"
    proof -
      have "1 / 10 \<le> 1 / (2 * real n)" using npos n5 by (simp add: field_simps)
      then show ?thesis by simp
    qed
    finally show ?thesis using err' by linarith
  qed
  have lower: "real_of_int t \<le> y + 1 / 2"
  proof (cases "2 * int n * t = 2 * S + int n")
    case True
    then have "real_of_int (2 * int n * t) = real_of_int (2 * S + int n)" by simp
    then have "2 * real n * real_of_int t = 2 * (q * real n) + real n" by (simp add: qn)
    then have "(2 * real n) * real_of_int t = (2 * real n) * (q + 1 / 2)"
      by (simp add: algebra_simps)
    then have tq: "real_of_int t = q + 1 / 2" using npos by simp
    then have qt: "q = real_of_int (2 * t - 1) * 2 powi (- 1)"
      by (simp add: power_int_minus)
    have "\<bar>real_of_int (2 * t - 1)\<bar> \<le> 2 ^ 50" using tq qb by simp
    then have "real_of_int \<bar>2 * t - 1\<bar> < 2 ^ 53" by simp
    then have m: "\<bar>2 * t - 1\<bar> < 2 ^ 53"
      by (simp only: of_int_less_numeral_power_cancel_iff)
    have i: "- 1074 \<le> (- 1 :: int)" by simp
    have "\<bar>q\<bar> < 2 ^ 1024" using qb by (rule le_less_trans) simp
    with qt m i have "rnd q = Fin q"
      by (rule rnd_exact)
    then have "y = q" using y by simp
    then show ?thesis using tq by simp
  next
    case False
    then have "2 * int n * t + 1 \<le> 2 * S + int n" using lo_int by simp
    then have "real_of_int (2 * int n * t + 1) \<le> real_of_int (2 * S + int n)"
      by (simp only: of_int_le_iff)
    then have "2 * real n * real_of_int t + 1 \<le> 2 * (q * real n) + real n"
      by (simp add: qn)
    then have "(real_of_int t) * (2 * real n) + 1 \<le> (q + 1 / 2) * (2 * real n)"
      by (simp add: algebra_simps)
    then have "((real_of_int t) * (2 * real n) + 1) / (2 * real n) \<le> q + 1 / 2"
      using npos by (simp add: pos_divide_le_eq)
    moreover have "((real_of_int t) * (2 * real n) + 1) / (2 * real n) =
        real_of_int t + 1 / (2 * real n)"
      using npos by (simp add: field_simps)
    moreover have "1 / 10 \<le> 1 / (2 * real n)" using npos n5 by (simp add: field_simps)
    ultimately show ?thesis using err' by linarith
  qed
  have "\<lfloor>y + 1 / 2\<rfloor> = t" using lower upper by linarith
  then show ?thesis
    using y by (simp add: q_def t_def nearestInt_def)
qed

lemma average_of_integers:
  assumes "ks \<noteq> []" "length ks \<le> 5" "\<forall>k\<in>set ks. \<bar>k\<bar> \<le> 2 ^ 49"
  shows "Math_round (ndivPos (foldl nadd (Fin 0) (map (\<lambda>k. Fin (of_int k)) ks))
           (real (length ks))) =
         Fin (of_int (nearestInt (of_int (sum_list ks) / real (length ks))))"
proof -
  have len: "1 \<le> length ks" using assms(1) by (cases ks) simp_all
  have "\<bar>0 :: int\<bar> + 2 ^ 49 * int (length ks) \<le> 2 ^ 53" using assms(2) by simp
  then have "foldl nadd (Fin (of_int 0)) (map (\<lambda>k. Fin (of_int k)) ks) =
      Fin (of_int (0 + sum_list ks))"
    using assms(3) by (intro foldl_nadd_exact)
  then have total: "foldl nadd (Fin 0) (map (\<lambda>k. Fin (of_int k)) ks) = Fin (of_int (sum_list ks))"
    by simp
  have "\<bar>sum_list ks\<bar> \<le> 2 ^ 49 * int (length ks)"
    using assms(3) by (rule sum_list_bound)
  then show ?thesis
    unfolding total using len assms(2) by (intro round_quotient)
qed

lemma rnd_below_one:
  "rnd (9007199254740991 / 9007199254740992) = Fin (9007199254740991 / 9007199254740992)"
proof -
  have "(9007199254740991 / 9007199254740992 :: real) = of_int 9007199254740991 * 2 powi (- 53)"
    by (simp add: power_int_minus)
  then show ?thesis by (rule rnd_exact) simp_all
qed

lemma rnd_up_to_one: "rnd (72057594037927933 / 72057594037927936) = Fin 1"
proof -
  have "rnd (72057594037927933 / 72057594037927936) =
      Fin (of_int (roundEven (72057594037927933 / 72057594037927936 / 2 powi (- 1 - 52))) *
           2 powi (- 1 - 52))"
    by (rule rnd_eval) (simp_all add: power_int_minus)
  also have "roundEven (72057594037927933 / 72057594037927936 / 2 powi (- 1 - 52)) =
      9007199254740992"
    by (simp add: roundEven_def power_int_minus)
  finally show ?thesis by (simp add: power_int_minus)
qed

text \<open>
  Claim C8, as amended. For a player without ping history, after any run of recorded samples
  (those of other players mixed in), \<open>getAveragePing\<close> is \<open>-1\<close> when none of the samples is
  the player's. Otherwise it is \<open>Math.round\<close> of the double quotient of the double sum,
  taken from the left, of the player's last five samples (of all of them, when there are
  fewer) by their number; when these samples are integers of magnitude at most \<open>2 ^ 49\<close>,
  that is their mean rounded to the nearest integer, a tie going up.
\<close>

theorem getAveragePing_last_five:
  "playerPingHistory pid = None \<Longrightarrow>
   (let recent = lastSamples (samplesOf pid records);
        avg = getAveragePing (recordAll playerPingHistory records) pid
    in length recent \<le> 5 \<and>
       (if samplesOf pid records = [] then avg = Fin (- 1)
        else avg = Math_round (ndivPos (foldl nadd (Fin 0) recent) (real (length recent)))) \<and>
       (\<forall>ks. ks \<noteq> [] \<and> recent = map (\<lambda>k. Fin (of_int k)) ks \<and> (\<forall>k\<in>set ks. \<bar>k\<bar> \<le> 2 ^ 49) \<longrightarrow>
          avg = Fin (of_int (nearestInt (of_int (sum_list ks) / real (length ks))))))"
proof -
  assume fresh: "playerPingHistory pid = None"
  define recent where "recent = lastSamples (samplesOf pid records)"
  define avg where "avg = getAveragePing (recordAll playerPingHistory records) pid"
  have len: "length recent \<le> 5"
    unfolding recent_def by (rule lastSamples_length)
  have none: "avg = Fin (- 1)" if "samplesOf pid records = []"
    using that recordAll_history [of playerPingHistory pid records] fresh
    by (simp add: avg_def getAveragePing_def)
  have some: "avg = Math_round (ndivPos (foldl nadd (Fin 0) recent) (real (length recent)))"
    if "recent \<noteq> []"
  proof -
    have "samplesOf pid records \<noteq> []"
      using that by (auto simp add: recent_def lastSamples_def)
    then have "recordAll playerPingHistory records pid = Some recent"
      using recordAll_history [of playerPingHistory pid records] fresh
      by (simp add: recent_def)
    then show ?thesis
      using that by (simp add: avg_def getAveragePing_def Let_def)
  qed
  have exact: "avg = Fin (of_int (nearestInt (of_int (sum_list ks) / real (length ks))))"
    if "ks \<noteq> []" "recent = map (\<lambda>k. Fin (of_int k)) ks" "\<forall>k\<in>set ks. \<bar>k\<bar> \<le> 2 ^ 49" for ks
  proof -
    have "recent \<noteq> []" using that(1,2) by simp
    moreover have "length ks \<le> 5" using len that(2) by simp
    ultimately show ?thesis
      using some average_of_integers [OF that(1) _ that(3)] that(2) by simp
  qed
  have second: "if samplesOf pid records = [] then avg = Fin (- 1)
      else avg = Math_round (ndivPos (foldl nadd (Fin 0) recent) (real (length recent)))"
  proof (cases "samplesOf pid records = []")
    case True
    then show ?thesis using none by simp
  next
    case False
    then have "recent \<noteq> []" unfolding recent_def by (rule lastSamples_nonempty)
    then show ?thesis using some False by simp
  qed
  show ?thesis
    using len second exact unfolding Let_def recent_def [symmetric] avg_def [symmetric]
    by blast
qed

text \<open>
  The average is not the rounded mean of every run of samples. The samples \<open>2 ^ 53\<close> and 1
  have mean \<open>2 ^ 52 + 1 / 2\<close>, which rounds to \<open>2 ^ 52 + 1\<close>, but their sum is rounded to
  \<open>2 ^ 53\<close> and the average is \<open>2 ^ 52\<close>. The samples \<open>1 - 2 ^ -53\<close> and \<open>5 * 2 ^ -56\<close> have a
  mean below one half, which rounds to 0, but their sum is rounded to 1 and the average
  is 1.
\<close>

theorem getAveragePing_last_five_counterexample:
  "getAveragePing (recordAll Map.empty hugeLog) ''p1'' = Fin 4503599627370496 \<and>
   nearestInt ((9007199254740992 + 1) / 2) = 4503599627370497 \<and>
   getAveragePing (recordAll Map.empty fineLog) ''p1'' = Fin 1 \<and>
   nearestInt ((9007199254740991 / 2 ^ 53 + 5 / 2 ^ 56) / 2) = 0"
  by (simp add: getAveragePing_def recordAll_def recordPingSample_def hugeLog_def fineLog_def
      PING_SAMPLE_COUNT_def nearestInt_def Let_def rnd_int rnd_tie_above_2_53 rnd_below_one
      rnd_up_to_one rnd_half)

text \<open>
  Seven samples for \<open>p1\<close>, the last five with mean 40.2; two for \<open>p2\<close> with mean 15.5, a tie
  that goes up; none for \<open>p3\<close>.
\<close>

theorem getAveragePing_last_five_witness:
  "getAveragePing (recordAll Map.empty pingLog) ''p1'' = Fin 40 \<and>
   getAveragePing (recordAll Map.empty pingLog) ''p2'' = Fin 16 \<and>
   getAveragePing (recordAll Map.empty pingLog) ''p3'' = Fin (- 1)"
proof -
  note p1 = getAveragePing_last_five [of Map.empty "''p1''" pingLog, OF refl, unfolded Let_def]
  note p2 = getAveragePing_last_five [of Map.empty "''p2''" pingLog, OF refl, unfolded Let_def]
  note p3 = getAveragePing_last_five [of Map.empty "''p3''" pingLog, OF refl, unfolded Let_def]
  have "getAveragePing (recordAll Map.empty pingLog) ''p1'' =
      Fin (of_int (nearestInt (of_int (sum_list [20, 30, 40, 50, 61]) /
                               real (length [20, 30, 40, 50, 61 :: int]))))"
    by (rule p1 [THEN conjunct2, THEN conjunct2, THEN spec, THEN mp])
      (simp add: samplesOf_def lastSamples_def pingLog_def PING_SAMPLE_COUNT_def)
  moreover have "getAveragePing (recordAll Map.empty pingLog) ''p2'' =
      Fin (of_int (nearestInt (of_int (sum_list [10, 21]) / real (length [10, 21 :: int]))))"
    by (rule p2 [THEN conjunct2, THEN conjunct2, THEN spec, THEN mp])
      (simp add: samplesOf_def lastSamples_def pingLog_def PING_SAMPLE_COUNT_def)
  moreover have "getAveragePing (recordAll Map.empty pingLog) ''p3'' = Fin (- 1)"
    using p3 [THEN conjunct2, THEN conjunct1] by (simp add: samplesOf_def pingLog_def)
  ultimately show ?thesis by (simp add: nearestInt_def)
qed

section \<open>Properties of the worker registry\<close>

lemma cleanup_keeps_local:
  "(localWorkerId, w) \<in> set workers \<Longrightarrow>
   (localWorkerId, w) \<in> set (cleanupStaleWorkers localWorkerId now workers)"
  by (simp add: cleanupStaleWorkers_def)

lemma cleanup_drops_stale:
  assumes "distinct (map fst workers)" "(wid, w) \<in> set workers" "wid \<noteq> localWorkerId"
    "now - lastSeen w > WORKER_TIMEOUT"
  shows "map_of (cleanupStaleWorkers localWorkerId now workers) wid = None"
proof -
  have "(wid, w') \<notin> set (cleanupStaleWorkers localWorkerId now workers)" for w'
  proof
    assume a: "(wid, w') \<in> set (cleanupStaleWorkers localWorkerId now workers)"
    then have "(wid, w') \<in> set workers" by (simp add: cleanupStaleWorkers_def)
    then have "w' = w" using assms(1,2) by (meson eq_key_imp_eq_value)
    then show False using a assms(3,4) by (simp add: cleanupStaleWorkers_def)
  qed
  then show ?thesis
    by (meson map_of_SomeD not_Some_eq)
qed

lemma listed_fresh:
  assumes "w \<in> set (snd (handleGetWorkers localWorkerId now readAt workers))"
  shows "\<exists>i. readAt i - lastSeen w < WORKER_TIMEOUT"
proof -
  from assms obtain i where
    "(i, w) \<in> set (filter (\<lambda>(i, w). readAt i - lastSeen w < WORKER_TIMEOUT)
        (zip [0..<length (map snd (cleanupStaleWorkers localWorkerId now workers))]
             (map snd (cleanupStaleWorkers localWorkerId now workers))))"
    by (auto simp: handleGetWorkers_def Let_def)
  then show ?thesis by auto
qed

text \<open>
  Claim C7. When \<open>handleGetWorkers\<close> runs at time \<open>now\<close> and the clock does not go back
  while it runs, every record of the registry other than the local node's whose \<open>lastSeen\<close>
  is more than 90 s before \<open>now\<close> is gone from the registry and is not in the list sent
  back; the local node's record is never removed by the cleanup.
\<close>

theorem stale_worker_evicted:
  "distinct (map fst workers) \<Longrightarrow> (\<forall>i. now \<le> readAt i) \<Longrightarrow>
   (let (workers', listed) = handleGetWorkers localWorkerId now readAt workers
    in workers' = cleanupStaleWorkers localWorkerId now workers \<and>
       (\<forall>(wid, w) \<in> set workers.
           wid \<noteq> localWorkerId \<and> now - lastSeen w > WORKER_TIMEOUT \<longrightarrow>
           map_of workers' wid = None \<and> w \<notin> set listed) \<and>
       (\<forall>w. (localWorkerId, w) \<in> set workers \<longrightarrow> (localWorkerId, w) \<in> set workers'))"
proof -
  assume d: "distinct (map fst workers)" and clock: "\<forall>i. now \<le> readAt i"
  obtain workers' listed where
    h: "handleGetWorkers localWorkerId now readAt workers = (workers', listed)"
    by (cases "handleGetWorkers localWorkerId now readAt workers")
  have w': "workers' = cleanupStaleWorkers localWorkerId now workers"
    using h by (simp add: handleGetWorkers_def Let_def)
  have stale: "map_of workers' wid = None \<and> w \<notin> set listed"
    if "(wid, w) \<in> set workers" "wid \<noteq> localWorkerId" "now - lastSeen w > WORKER_TIMEOUT"
    for wid w
  proof
    show "map_of workers' wid = None"
      unfolding w' using d that by (rule cleanup_drops_stale)
    show "w \<notin> set listed"
    proof
      assume "w \<in> set listed"
      then obtain i where "readAt i - lastSeen w < WORKER_TIMEOUT"
        using listed_fresh [of w localWorkerId now readAt workers] h by auto
      moreover have "now \<le> readAt i" using clock by simp
      ultimately show False using that(3) by simp
    qed
  qed
  have local: "(localWorkerId, w) \<in> set workers'" if "(localWorkerId, w) \<in> set workers" for w
    unfolding w' using that by (rule cleanup_keeps_local)
  show ?thesis
    unfolding h using w' stale local by auto
qed

text \<open>
  In the sample registry \<open>w2\<close> is evicted; the stale local node and \<open>w3\<close> stay registered
  and only \<open>w1\<close> is listed.
\<close>

theorem stale_worker_evicted_witness:
  "handleGetWorkers ''local'' 400000 (\<lambda>i. 400000 + int i) registry =
     ([sampleWorker ''local'' 100000, sampleWorker ''w1'' 350000, sampleWorker ''w3'' 310000],
      [snd (sampleWorker ''w1'' 350000)])"
  using stale_worker_evicted [of registry 400000 "\<lambda>i. 400000 + int i" "''local''"]
  by (simp add: handleGetWorkers_def cleanupStaleWorkers_def registry_def sampleWorker_def
      WORKER_TIMEOUT_def Let_def)

subsection \<open>Scores of the best-worker selection\<close>

lemma rnd_fifth_exact: "rnd (3602879701896397 / 2 ^ 54) = Fin (3602879701896397 / 2 ^ 54)"
proof -
  have "(3602879701896397 / 2 ^ 54 :: real) = of_int 3602879701896397 * 2 powi (- 54)"
    by (simp add: power_int_minus)
  then show ?thesis by (rule rnd_exact) simp_all
qed

lemma rnd_150_less_fifth:
  "rnd (150 - 3602879701896397 / 2 ^ 54) = Fin (2635309469453517 / 2 ^ 44)"
proof -
  have "rnd (150 - 3602879701896397 / 2 ^ 54) =
      Fin (of_int (roundEven ((150 - 3602879701896397 / 2 ^ 54) / 2 powi (7 - 52))) *
           2 powi (7 - 52))"
    by (rule rnd_eval) simp_all
  also have "roundEven ((150 - 3602879701896397 / 2 ^ 54) / 2 powi (7 - 52)) = 5270618938907034"
    by (simp add: roundEven_def power_int_minus)
  finally show ?thesis by (simp add: power_int_minus)
qed

lemma rnd_100_less_fifth:
  "rnd (100 - 3602879701896397 / 2 ^ 54) = Fin (7022800668930867 / 2 ^ 46)"
proof -
  have "rnd (100 - 3602879701896397 / 2 ^ 54) =
      Fin (of_int (roundEven ((100 - 3602879701896397 / 2 ^ 54) / 2 powi (6 - 52))) *
           2 powi (6 - 52))"
    by (rule rnd_eval) simp_all
  also have "roundEven ((100 - 3602879701896397 / 2 ^ 54) / 2 powi (6 - 52)) = 7022800668930867"
    by (simp add: roundEven_def power_int_minus)
  finally show ?thesis by (simp add: power_int_minus)
qed

lemma rnd_8_thousandths: "rnd (8 / 1000) = Fin (1152921504606847 / 2 ^ 57)"
proof -
  have "rnd (8 / 1000) =
      Fin (of_int (roundEven (8 / 1000 / 2 powi (- 7 - 52))) * 2 powi (- 7 - 52))"
    by (rule rnd_eval) (simp_all add: power_int_minus)
  also have "roundEven (8 / 1000 / 2 powi (- 7 - 52)) = 4611686018427388"
    by (simp add: roundEven_def power_int_minus)
  finally show ?thesis by (simp add: power_int_minus)
qed

lemma rnd_penalty_8: "rnd (1152921504606847 / 2 ^ 57 * 30) = Fin (1080863910568919 / 2 ^ 52)"
proof -
  have "rnd (1152921504606847 / 2 ^ 57 * 30) =
      Fin (of_int (roundEven (1152921504606847 / 2 ^ 57 * 30 / 2 powi (- 3 - 52))) *
           2 powi (- 3 - 52))"
    by (rule rnd_eval) (simp_all add: power_int_minus)
  also have "roundEven (1152921504606847 / 2 ^ 57 * 30 / 2 powi (- 3 - 52)) = 8646911284551352"
    by (simp add: roundEven_def power_int_minus)
  finally show ?thesis by (simp add: power_int_minus)
qed

lemma rnd_score_8:
  "rnd (100 - 1080863910568919 / 2 ^ 52) = Fin (7019985919163761 / 2 ^ 46)"
proof -
  have "rnd (100 - 1080863910568919 / 2 ^ 52) =
      Fin (of_int (roundEven ((100 - 1080863910568919 / 2 ^ 52) / 2 powi (6 - 52))) *
           2 powi (6 - 52))"
    by (rule rnd_eval) simp_all
  also have "roundEven ((100 - 1080863910568919 / 2 ^ 52) / 2 powi (6 - 52)) = 7019985919163761"
    by (simp add: roundEven_def power_int_minus)
  finally show ?thesis by (simp add: power_int_minus)
qed

lemma rnd_score_8_exact:
  "rnd (7019985919163761 / 2 ^ 46) = Fin (7019985919163761 / 2 ^ 46)"
proof -
  have "(7019985919163761 / 2 ^ 46 :: real) = of_int 7019985919163761 * 2 powi (- 46)"
    by (simp add: power_int_minus)
  then show ?thesis by (rule rnd_exact) simp_all
qed

lemma rnd_1008_thousandths: "rnd (1008 / 1000) = Fin (1134907106097365 / 2 ^ 50)"
proof -
  have "rnd (1008 / 1000) =
      Fin (of_int (roundEven (1008 / 1000 / 2 powi (0 - 52))) * 2 powi (0 - 52))"
    by (rule rnd_eval) (simp_all add: power_int_minus)
  also have "roundEven (1008 / 1000 / 2 powi (0 - 52)) = 4539628424389460"
    by (simp add: roundEven_def power_int_minus)
  finally show ?thesis by (simp add: power_int_minus)
qed

lemma rnd_penalty_1008: "rnd (1134907106097365 / 2 ^ 50 * 30) = Fin (4255901647865119 / 2 ^ 47)"
proof -
  have "rnd (1134907106097365 / 2 ^ 50 * 30) =
      Fin (of_int (roundEven (1134907106097365 / 2 ^ 50 * 30 / 2 powi (4 - 52))) *
           2 powi (4 - 52))"
    by (rule rnd_eval) (simp_all add: power_int_minus)
  also have "roundEven (1134907106097365 / 2 ^ 50 * 30 / 2 powi (4 - 52)) = 8511803295730238"
    by (simp add: roundEven_def power_int_minus)
  finally show ?thesis by (simp add: power_int_minus)
qed

lemma rnd_score_1008:
  "rnd (100 - 4255901647865119 / 2 ^ 47) = Fin (306807724614615 / 2 ^ 42)"
proof -
  have "rnd (100 - 4255901647865119 / 2 ^ 47) =
      Fin (of_int (roundEven ((100 - 4255901647865119 / 2 ^ 47) / 2 powi (6 - 52))) *
           2 powi (6 - 52))"
    by (rule rnd_eval) simp_all
  also have "roundEven ((100 - 4255901647865119 / 2 ^ 47) / 2 powi (6 - 52)) = 4908923593833840"
    by (simp add: roundEven_def power_int_minus)
  finally show ?thesis by (simp add: power_int_minus)
qed

lemma rnd_score_1008_exact:
  "rnd (306807724614615 / 2 ^ 42) = Fin (306807724614615 / 2 ^ 42)"
proof -
  have "(306807724614615 / 2 ^ 42 :: real) = of_int 306807724614615 * 2 powi (- 42)"
    by (simp add: power_int_minus)
  then show ?thesis by (rule rnd_exact) simp_all
qed

lemma score_match_idle:
  "scoreWorker ''eu-west'' (loadedWorker ''eu-west'' 0 1) = Fin (2635309469453517 / 2 ^ 44)"
  using rnd_fifth rnd_fifth_exact rnd_150_less_fifth
  by (simp add: scoreWorker_def loadedWorker_def Let_def nsub_Fin rnd_int rnd_zero)

lemma score_other_idle:
  "scoreWorker ''eu-west'' (loadedWorker ''us-east'' 0 1) = Fin (7022800668930867 / 2 ^ 46)"
  using rnd_fifth rnd_fifth_exact rnd_100_less_fifth
  by (simp add: scoreWorker_def loadedWorker_def Let_def nsub_Fin rnd_int rnd_zero)

lemma score_8_players:
  "scoreWorker ''eu-west'' (loadedWorker ''us-east'' 8 0) = Fin (7019985919163761 / 2 ^ 46)"
  using rnd_fifth rnd_8_thousandths rnd_penalty_8 rnd_score_8 rnd_score_8_exact
  by (simp add: scoreWorker_def loadedWorker_def Let_def nsub_Fin rnd_int rnd_zero)

lemma score_1008_players:
  "scoreWorker ''eu-west'' (loadedWorker ''us-east'' 1008 0) = Fin (306807724614615 / 2 ^ 42)"
  using rnd_fifth rnd_1008_thousandths rnd_penalty_1008 rnd_score_1008 rnd_score_1008_exact
  by (simp add: scoreWorker_def loadedWorker_def Let_def nsub_Fin rnd_int rnd_zero)

lemma loadPenalty_bound:
  assumes "0 \<le> a" "a \<le> 10 ^ 6"
  shows "\<exists>p. nmul (ndivPos (Fin a) 1000) (Fin 30) = Fin p \<and>
             \<bar>p - 3 * a / 100\<bar> \<le> 2 powi (- 37) \<and> \<bar>p\<bar> \<le> 30001"
proof -
  have a: "\<bar>a / 1000\<bar> \<le> 1000" using assms by simp
  then have "\<bar>a / 1000\<bar> \<le> 2 powi 10" by simp
  then obtain d where d: "rnd (a / 1000) = Fin d" and de: "\<bar>d - a / 1000\<bar> \<le> 2 powi (10 - 53)"
    using rnd_error [of "a / 1000" 10] by auto
  have "\<bar>d\<bar> \<le> 1001"
    using de a by (rule near_bound) (simp add: power_int_minus)
  then have "\<bar>d * 30\<bar> \<le> 2 powi 15" by (simp add: abs_mult)
  then obtain p where p: "rnd (d * 30) = Fin p" and pe: "\<bar>p - d * 30\<bar> \<le> 2 powi (15 - 53)"
    using rnd_error [of "d * 30" 15] by auto
  have "d * 30 - 3 * a / 100 = 30 * (d - a / 1000)" by simp
  then have "\<bar>d * 30 - 3 * a / 100\<bar> = \<bar>30 * (d - a / 1000)\<bar>" by (simp only:)
  also have "\<dots> = 30 * \<bar>d - a / 1000\<bar>" by (simp only: abs_mult abs_numeral)
  finally have "\<bar>d * 30 - 3 * a / 100\<bar> = 30 * \<bar>d - a / 1000\<bar>" .
  then have dp: "\<bar>d * 30 - 3 * a / 100\<bar> \<le> 30 * 2 powi (10 - 53)" using de by simp
  have near: "\<bar>p - 3 * a / 100\<bar> \<le> 2 powi (- 37)"
    using pe dp by (rule near_trans) (simp add: power_int_minus)
  have "\<bar>3 * a / 100\<bar> \<le> 30000" using assms by simp
  with near have "\<bar>p\<bar> \<le> 30001"
    by (rule near_bound) (simp add: power_int_minus)
  then show ?thesis using d p near by simp
qed

lemma cpuPenalty_bound:
  assumes "0 \<le> c" "c \<le> 100"
  shows "\<exists>t. nmul (Fin c) (rnd (2 / 10)) = Fin t \<and> \<bar>t\<bar> \<le> 32"
proof -
  define f :: real where "f = 3602879701896397 / 2 ^ 54"
  have f: "0 \<le> f" "f \<le> 1 / 4" by (simp_all add: f_def)
  have "c * f \<le> 100 * (1 / 4)" using assms f by (intro mult_mono) simp_all
  moreover have "0 \<le> c * f" using assms f by simp
  ultimately have cf: "\<bar>c * f\<bar> \<le> 25" by simp
  then have "\<bar>c * f\<bar> \<le> 2 powi 5" by simp
  then obtain t where t: "rnd (c * f) = Fin t" and te: "\<bar>t - c * f\<bar> \<le> 2 powi (5 - 53)"
    using rnd_error [of "c * f" 5] by auto
  have "\<bar>t\<bar> \<le> 32"
    using te cf by (rule near_bound) (simp add: power_int_minus)
  moreover have "nmul (Fin c) (rnd (2 / 10)) = Fin t"
    unfolding rnd_fifth using t by (simp add: f_def)
  ultimately show ?thesis by blast
qed

lemma score_bound:
  assumes "\<bar>b\<bar> \<le> 150" "\<bar>p\<bar> \<le> 30001" "\<bar>t\<bar> \<le> 32"
  shows "\<exists>s. nsub (nsub (Fin b) (Fin p)) (Fin t) = Fin s \<and> \<bar>s - (b - p - t)\<bar> \<le> 2 powi (- 37)"
proof -
  have bp: "\<bar>b - p\<bar> \<le> 30151" using assms by linarith
  then have "\<bar>b - p\<bar> \<le> 2 powi 15" by simp
  then obtain u where u: "rnd (b - p) = Fin u" and ue: "\<bar>u - (b - p)\<bar> \<le> 2 powi (15 - 53)"
    using rnd_error [of "b - p" 15] by auto
  have "\<bar>u\<bar> \<le> 30152"
    using ue bp by (rule near_bound) (simp add: power_int_minus)
  then have "\<bar>u - t\<bar> \<le> 30184" using assms(3) by linarith
  then have "\<bar>u - t\<bar> \<le> 2 powi 15" by simp
  then obtain s where s: "rnd (u - t) = Fin s" and se: "\<bar>s - (u - t)\<bar> \<le> 2 powi (15 - 53)"
    using rnd_error [of "u - t" 15] by auto
  have eq: "(u - t) - (b - p - t) = u - (b - p)" by simp
  have "\<bar>(u - t) - (b - p - t)\<bar> \<le> 2 powi (15 - 53)" unfolding eq by (rule ue)
  with se have "\<bar>s - (b - p - t)\<bar> \<le> 2 powi (- 37)"
    by (rule near_trans) (simp add: power_int_minus)
  then show ?thesis using u s by (simp add: nsub_Fin)
qed

lemma scoreWorker_value:
  assumes "activePlayers (load w) = Fin a" "cpuUsage (load w) = Fin c"
    "0 \<le> a" "a \<le> 10 ^ 6" "0 \<le> c" "c \<le> 100"
  shows "\<exists>p t s. nmul (ndivPos (Fin a) 1000) (Fin 30) = Fin p \<and>
           \<bar>p - 3 * a / 100\<bar> \<le> 2 powi (- 37) \<and>
           nmul (Fin c) (rnd (2 / 10)) = Fin t \<and>
           scoreWorker playerRegion w = Fin s \<and>
           \<bar>s - ((if w_region w = playerRegion then 150 else 100) - p - t)\<bar> \<le> 2 powi (- 37)"
proof -
  obtain p where p: "nmul (ndivPos (Fin a) 1000) (Fin 30) = Fin p"
    "\<bar>p - 3 * a / 100\<bar> \<le> 2 powi (- 37)" "\<bar>p\<bar> \<le> 30001"
    using loadPenalty_bound [OF assms(3,4)] by auto
  obtain t where t: "nmul (Fin c) (rnd (2 / 10)) = Fin t" "\<bar>t\<bar> \<le> 32"
    using cpuPenalty_bound [OF assms(5,6)] by auto
  define b :: real where "b = (if w_region w = playerRegion then 150 else 100)"
  have "\<bar>b\<bar> \<le> 150" by (simp add: b_def)
  then obtain s where s: "nsub (nsub (Fin b) (Fin p)) (Fin t) = Fin s"
    "\<bar>s - (b - p - t)\<bar> \<le> 2 powi (- 37)"
    using score_bound [OF _ p(3) t(2)] by auto
  have "scoreWorker playerRegion w = nsub (nsub (Fin b) (Fin p)) (Fin t)"
    using p(1) t(1) by (simp add: scoreWorker_def Let_def assms(1,2) b_def rnd_int)
  then show ?thesis using p t s unfolding b_def by auto
qed

text \<open>
  Claim C6, as amended. Take a worker whose \<open>activePlayers\<close> is a number from 0 to
  \<open>10 ^ 6\<close> and whose \<open>cpuUsage\<close> is a number from 0 to 100. Its score is finite. A worker
  with the same load whose region is the player's, when the first one's is not, has a finite
  score that is 50 higher up to the rounding of double arithmetic: the difference is within
  \<open>2 ^ -36\<close> of 50. A worker of the same region and the same load except that its
  \<open>activePlayers\<close> is greater by 1000, and still at most \<open>10 ^ 6\<close>, has a finite score that is
  30 lower up to rounding: the difference is within \<open>2 ^ -35\<close> of 30.
\<close>

theorem scoreWorker_region_and_load:
  "activePlayers (load w) = Fin a \<Longrightarrow> cpuUsage (load w) = Fin c \<Longrightarrow>
   0 \<le> a \<Longrightarrow> a \<le> 10 ^ 6 \<Longrightarrow> 0 \<le> c \<Longrightarrow> c \<le> 100 \<Longrightarrow>
   (\<exists>s. scoreWorker playerRegion w = Fin s \<and>
      (\<forall>w'. load w' = load w \<and> w_region w' = playerRegion \<and> w_region w \<noteq> playerRegion \<longrightarrow>
         (\<exists>s'. scoreWorker playerRegion w' = Fin s' \<and> \<bar>s' - (s + 50)\<bar> \<le> 2 powi (- 36))) \<and>
      (\<forall>w'. load w' = (load w)\<lparr>activePlayers := Fin (a + 1000)\<rparr> \<and> w_region w' = w_region w \<and>
            a + 1000 \<le> 10 ^ 6 \<longrightarrow>
         (\<exists>s'. scoreWorker playerRegion w' = Fin s' \<and> \<bar>s' - (s - 30)\<bar> \<le> 2 powi (- 35))))"
proof -
  assume w: "activePlayers (load w) = Fin a" "cpuUsage (load w) = Fin c"
    and r: "0 \<le> a" "a \<le> 10 ^ 6" "0 \<le> c" "c \<le> 100"
  define b :: real where "b = (if w_region w = playerRegion then 150 else 100)"
  obtain p t s where v: "nmul (ndivPos (Fin a) 1000) (Fin 30) = Fin p"
    "\<bar>p - 3 * a / 100\<bar> \<le> 2 powi (- 37)" "nmul (Fin c) (rnd (2 / 10)) = Fin t"
    "scoreWorker playerRegion w = Fin s" "\<bar>s - (b - p - t)\<bar> \<le> 2 powi (- 37)"
    using scoreWorker_value [OF w r] unfolding b_def by blast
  have region: "\<exists>s'. scoreWorker playerRegion w' = Fin s' \<and> \<bar>s' - (s + 50)\<bar> \<le> 2 powi (- 36)"
    if l: "load w' = load w" "w_region w' = playerRegion" "w_region w \<noteq> playerRegion" for w'
  proof -
    have w': "activePlayers (load w') = Fin a" "cpuUsage (load w') = Fin c"
      using l(1) w by simp_all
    obtain p' t' s' where v': "nmul (ndivPos (Fin a) 1000) (Fin 30) = Fin p'"
      "nmul (Fin c) (rnd (2 / 10)) = Fin t'" "scoreWorker playerRegion w' = Fin s'"
      "\<bar>s' - ((if w_region w' = playerRegion then 150 else 100) - p' - t')\<bar> \<le> 2 powi (- 37)"
      using scoreWorker_value [OF w' r] by blast
    have "p' = p" "t' = t" using v(1,3) v'(1,2) by simp_all
    then have "\<bar>s' - (150 - p - t)\<bar> \<le> 2 powi (- 37)"
      using v'(4) l(2) by simp
    moreover have eq: "(100 - p - t) + 50 = 150 - p - t" by simp
    ultimately have "\<bar>s' - ((100 - p - t) + 50)\<bar> \<le> 2 powi (- 37)"
      by (simp only:)
    moreover have "\<bar>s - (100 - p - t)\<bar> \<le> 2 powi (- 37)"
      using v(5) l(3) by (simp add: b_def)
    ultimately have "\<bar>s' - (s + 50)\<bar> \<le> 2 powi (- 36)"
      by (rule near_shift) (simp add: power_int_minus)
    then show ?thesis using v'(3) by simp
  qed
  have loaded: "\<exists>s'. scoreWorker playerRegion w' = Fin s' \<and> \<bar>s' - (s - 30)\<bar> \<le> 2 powi (- 35)"
    if l: "load w' = (load w)\<lparr>activePlayers := Fin (a + 1000)\<rparr>" "w_region w' = w_region w"
      "a + 1000 \<le> 10 ^ 6" for w'
  proof -
    have w': "activePlayers (load w') = Fin (a + 1000)" "cpuUsage (load w') = Fin c"
      using l(1) w by simp_all
    have r': "0 \<le> a + 1000" using r(1) by simp
    obtain p' t' s' where v': "\<bar>p' - 3 * (a + 1000) / 100\<bar> \<le> 2 powi (- 37)"
      "nmul (Fin c) (rnd (2 / 10)) = Fin t'" "scoreWorker playerRegion w' = Fin s'"
      "\<bar>s' - ((if w_region w' = playerRegion then 150 else 100) - p' - t')\<bar> \<le> 2 powi (- 37)"
      using scoreWorker_value [OF w' r' l(3) r(3,4)] by blast
    have "t' = t" using v(3) v'(2) by simp
    then have s': "\<bar>s' - (b - p' - t)\<bar> \<le> 2 powi (- 37)"
      using v'(4) l(2) by (simp add: b_def)
    have "3 * (a + 1000) / 100 = 3 * a / 100 + 30" by simp
    then have p': "\<bar>p' - (3 * a / 100 + 30)\<bar> \<le> 2 powi (- 37)" using v'(1) by (simp only:)
    have "(b - p' - t) - (b - (3 * a / 100 + 30) - t) = - (p' - (3 * a / 100 + 30))" by simp
    then have "\<bar>(b - p' - t) - (b - (3 * a / 100 + 30) - t)\<bar> \<le> 2 powi (- 37)"
      using p' by (simp only: abs_minus_cancel)
    with s' have one: "\<bar>s' - (b - (3 * a / 100 + 30) - t)\<bar> \<le> 2 powi (- 36)"
      by (rule near_trans) (simp add: power_int_minus)
    have "(b - p - t) - (b - 3 * a / 100 - t) = - (p - 3 * a / 100)" by simp
    then have "\<bar>(b - p - t) - (b - 3 * a / 100 - t)\<bar> \<le> 2 powi (- 37)"
      using v(2) by (simp only: abs_minus_cancel)
    with v(5) have two: "\<bar>s - (b - 3 * a / 100 - t)\<bar> \<le> 2 powi (- 36)"
      by (rule near_trans) (simp add: power_int_minus)
    have "(b - 3 * a / 100 - t) + (- 30) = b - (3 * a / 100 + 30) - t" by simp
    then have "\<bar>s' - ((b - 3 * a / 100 - t) + (- 30))\<bar> \<le> 2 powi (- 36)"
      using one by (simp only:)
    then have "\<bar>s' - (s + (- 30))\<bar> \<le> 2 powi (- 35)"
      using two by (rule near_shift) (simp add: power_int_minus)
    then show ?thesis using v'(3) by simp
  qed
  show ?thesis using v(4) region loaded by blast
qed

text \<open>
  Neither difference is exact. With no players and \<open>cpuUsage\<close> 1, the worker of the player's
  region scores \<open>50 + 2 ^ -46\<close> more than the one of another region. With \<open>cpuUsage\<close> 0, the
  worker with 8 players scores \<open>30 + 2 ^ -46\<close> more than the one with 1008.
\<close>

theorem scoreWorker_region_and_load_counterexample:
  "scoreWorker ''eu-west'' (loadedWorker ''eu-west'' 0 1) = Fin (2635309469453517 / 2 ^ 44) \<and>
   scoreWorker ''eu-west'' (loadedWorker ''us-east'' 0 1) = Fin (7022800668930867 / 2 ^ 46) \<and>
   (2635309469453517 / 2 ^ 44 - 7022800668930867 / 2 ^ 46 :: real) = 50 + 1 / 2 ^ 46 \<and>
   scoreWorker ''eu-west'' (loadedWorker ''us-east'' 8 0) = Fin (7019985919163761 / 2 ^ 46) \<and>
   scoreWorker ''eu-west'' (loadedWorker ''us-east'' 1008 0) = Fin (306807724614615 / 2 ^ 42) \<and>
   (7019985919163761 / 2 ^ 46 - 306807724614615 / 2 ^ 42 :: real) = 30 + 1 / 2 ^ 46"
  using score_match_idle score_other_idle score_8_players score_1008_players by simp

text \<open>
  A worker of another region with 8 players and an idle CPU, against one of the player's
  region and against one with 1008 players.
\<close>

theorem scoreWorker_region_and_load_witness:
  "\<exists>s. scoreWorker ''eu-west'' (loadedWorker ''us-east'' 8 0) = Fin s \<and>
      (\<exists>s'. scoreWorker ''eu-west'' (loadedWorker ''eu-west'' 8 0) = Fin s' \<and>
            \<bar>s' - (s + 50)\<bar> \<le> 2 powi (- 36)) \<and>
      (\<exists>s'. scoreWorker ''eu-west'' (loadedWorker ''us-east'' 1008 0) = Fin s' \<and>
            \<bar>s' - (s - 30)\<bar> \<le> 2 powi (- 35))"
proof -
  obtain s where s: "scoreWorker ''eu-west'' (loadedWorker ''us-east'' 8 0) = Fin s"
    and region: "\<forall>w'. load w' = load (loadedWorker ''us-east'' 8 0) \<and> w_region w' = ''eu-west'' \<and>
          w_region (loadedWorker ''us-east'' 8 0) \<noteq> ''eu-west'' \<longrightarrow>
        (\<exists>s'. scoreWorker ''eu-west'' w' = Fin s' \<and> \<bar>s' - (s + 50)\<bar> \<le> 2 powi (- 36))"
    and loaded: "\<forall>w'. load w' = (load (loadedWorker ''us-east'' 8 0))\<lparr>activePlayers := Fin (8 + 1000)\<rparr> \<and>
          w_region w' = w_region (loadedWorker ''us-east'' 8 0) \<and> (8 :: real) + 1000 \<le> 10 ^ 6 \<longrightarrow>
        (\<exists>s'. scoreWorker ''eu-west'' w' = Fin s' \<and> \<bar>s' - (s - 30)\<bar> \<le> 2 powi (- 35))"
    using scoreWorker_region_and_load [of "loadedWorker ''us-east'' 8 0" 8 0 "''eu-west''"]
    by (auto simp add: loadedWorker_def)
  have "\<exists>s'. scoreWorker ''eu-west'' (loadedWorker ''eu-west'' 8 0) = Fin s' \<and>
      \<bar>s' - (s + 50)\<bar> \<le> 2 powi (- 36)"
    using region [THEN spec, of "loadedWorker ''eu-west'' 8 0"] by (simp add: loadedWorker_def)
  moreover have "\<exists>s'. scoreWorker ''eu-west'' (loadedWorker ''us-east'' 1008 0) = Fin s' \<and>
      \<bar>s' - (s - 30)\<bar> \<le> 2 powi (- 35)"
    using loaded [THEN spec, of "loadedWorker ''us-east'' 1008 0"] by (simp add: loadedWorker_def)
  ultimately show ?thesis using s by blast
qed

section \<open>Properties of lobby formation\<close>

subsection \<open>Grouping never throws and only regroups the sorted players\<close>

lemma groupLoop_total:
  "currentGroup \<noteq> [] \<Longrightarrow>
   \<exists>gs cur. groupLoop rest groups currentGroup = Some (gs, cur) \<and> cur \<noteq> [] \<and>
            concat gs @ cur = concat groups @ currentGroup @ rest"
proof (induction rest arbitrary: groups currentGroup)
  case Nil
  then show ?case by simp
next
  case (Cons player rest)
  obtain base others where c: "currentGroup = base # others"
    using Cons.prems by (cases currentGroup) auto
  show ?case
  proof (cases "arePingsCompatible (ping base) (ping player)")
    case True
    then show ?thesis
      using Cons.IH [of "currentGroup @ [player]" groups] by (simp add: c)
  next
    case False
    then show ?thesis
      using Cons.IH [of "[player]" "groups @ [currentGroup]"] by (simp add: c)
  qed
qed

lemma groupPlayersByPing_total:
  "\<exists>gs. groupPlayersByPing ps = Some gs \<and> concat gs = sort_key ping ps"
proof (cases ps)
  case Nil
  then show ?thesis by (simp add: groupPlayersByPing_def)
next
  case (Cons p ps')
  then have "sort_key ping ps \<noteq> []"
    by (metis length_sort list.distinct(1) list.size(3) length_0_conv)
  then obtain first others where s: "sort_key ping ps = first # others"
    by (cases "sort_key ping ps") auto
  obtain gs cur where
    g: "groupLoop others [] [first] = Some (gs, cur)" "cur \<noteq> []"
       "concat gs @ cur = first # others"
    using groupLoop_total [of "[first]" others "[]"] by auto
  show ?thesis
    using Cons s g by (simp add: groupPlayersByPing_def)
qed

subsection \<open>The selection is a duplicate-free part of the queue\<close>

lemma combineGroups_part:
  "distinct (selected @ concat groups) \<Longrightarrow>
   distinct (combineGroups groups n selected) \<and>
   set (combineGroups groups n selected) \<subseteq> set selected \<union> set (concat groups)"
proof (induction groups arbitrary: selected)
  case Nil
  then show ?case by simp
next
  case (Cons grp rest)
  show ?case
  proof (cases "int n - int (length selected) \<le> 0")
    case True
    then show ?thesis using Cons.prems by simp
  next
    case False
    define added where
      "added = take (nat (int n - int (length selected)))
                 (filter (\<lambda>p. length selected = 0 \<or>
                    arePingsCompatible (ping (hd selected)) (ping p)) grp)"
    have sub: "set added \<subseteq> set grp"
      unfolding added_def by (meson filter_is_subset order_trans set_take_subset)
    have dist: "distinct added"
      unfolding added_def using Cons.prems by simp
    have "distinct ((selected @ added) @ concat rest)"
      using Cons.prems sub dist by auto
    from Cons.IH [OF this] have
      "distinct (combineGroups rest n (selected @ added)) \<and>
       set (combineGroups rest n (selected @ added)) \<subseteq> set (selected @ added) \<union> set (concat rest)" .
    moreover have "combineGroups (grp # rest) n selected = combineGroups rest n (selected @ added)"
      using False by (simp add: added_def Let_def)
    ultimately show ?thesis using sub by auto
  qed
qed

lemma selectPlayersForLobby_part:
  assumes "distinct ps"
  shows "\<exists>sel. selectPlayersForLobby ps n = Some sel \<and> distinct sel \<and> set sel \<subseteq> set ps"
proof (cases "length ps \<le> n")
  case True
  then show ?thesis using assms by (simp add: selectPlayersForLobby_def)
next
  case False
  obtain gs where g: "groupPlayersByPing ps = Some gs" "concat gs = sort_key ping ps"
    using groupPlayersByPing_total by blast
  have dg: "distinct (concat gs)" and sg: "set (concat gs) = set ps"
    using g(2) assms by simp_all
  show ?thesis
  proof (cases "find (\<lambda>grp. length grp \<ge> n) gs")
    case None
    then have "selectPlayersForLobby ps n = Some (combineGroups gs n [])"
      using False g(1) by (simp add: selectPlayersForLobby_def)
    then show ?thesis
      using combineGroups_part [of "[]" gs n] dg sg by simp
  next
    case (Some grp)
    then have "grp \<in> set gs"
      by (metis find_Some_iff nth_mem)
    then have "distinct grp" "set grp \<subseteq> set ps"
      using dg sg by (auto simp: distinct_concat_iff)
    moreover have "selectPlayersForLobby ps n = Some (take n grp)"
      using False g(1) Some by (simp add: selectPlayersForLobby_def)
    ultimately show ?thesis
      by (meson distinct_take order_trans set_take_subset)
  qed
qed

subsection \<open>Creating the lobby removes its members from the queue\<close>

lemma notify_loop_queue:
  "fst (foldl (notifyAndRemove conns lobby cfg) (q, sent) chosen) =
     filter (\<lambda>(k, p). k \<notin> set (map p_id chosen)) q"
proof (induction chosen arbitrary: q sent)
  case Nil
  then show ?case by simp
next
  case (Cons c chosen)
  have "notifyAndRemove conns lobby cfg (q, sent) c =
          (AList.delete (p_id c) q, snd (notifyAndRemove conns lobby cfg (q, sent) c))"
    by (simp add: notifyAndRemove_def Let_def split: option.splits)
  then have "fst (foldl (notifyAndRemove conns lobby cfg) (q, sent) (c # chosen)) =
      filter (\<lambda>(k, p). k \<notin> set (map p_id chosen)) (AList.delete (p_id c) q)"
    using Cons.IH [of "AList.delete (p_id c) q"] by (metis foldl_Cons)
  also have "\<dots> = filter (\<lambda>(k, p). k \<notin> set (map p_id (c # chosen))) q"
    by (induction q) (auto simp: AList.delete_eq)
  finally show ?case .
qed

lemma removed_count:
  assumes "distinct (map fst q)" "distinct ks" "set ks \<subseteq> fst ` set q"
  shows "length (filter (\<lambda>(k, p). k \<notin> set ks) q) + length ks = length q"
proof -
  let ?inside = "filter (\<lambda>(k, p). k \<in> set ks) q"
  have "distinct (map fst ?inside)"
    using assms(1) by (rule distinct_map_filter)
  moreover have "set (map fst ?inside) = set ks"
    using assms(3) by force
  ultimately have "length (map fst ?inside) = length ks"
    using assms(2) by (metis distinct_card)
  moreover have "length ?inside + length (filter (\<lambda>x. \<not> (case x of (k, p) \<Rightarrow> k \<in> set ks)) q)
      = length q"
    by (rule sum_length_filter_compl)
  moreover have "filter (\<lambda>x. \<not> (case x of (k, p) \<Rightarrow> k \<in> set ks)) q =
      filter (\<lambda>(k, p). k \<notin> set ks) q"
    by (rule filter_cong) auto
  ultimately show ?thesis by simp
qed

lemma wellFormedQueue_ids:
  assumes "wellFormedQueue q"
  shows "map p_id (map snd q) = map fst q"
  using assms by (induction q) (auto simp: wellFormedQueue_def)

lemma createLobby_effect:
  assumes "chosen \<noteq> []"
  shows "\<exists>st' effects lobby.
     createLobby env now lobbyId st chosen = Some (st', effects) \<and>
     m_lobbies st' = AList.update lobbyId lobby (m_lobbies st) \<and>
     players lobby = map p_id chosen \<and> maxPlayers lobby = LOBBY_SIZE \<and>
     hostId lobby = p_id (hd chosen) \<and>
     m_players st' = filter (\<lambda>(k, p). k \<notin> set (map p_id chosen)) (m_players st)"
proof -
  let ?lobby = "\<lparr>l_id = lobbyId, players = map p_id chosen, hostId = p_id (hd chosen),
                 maxPlayers = LOBBY_SIZE, createdAt = now, gameStarted = False,
                 workerId = WORKER_ID env, l_region = WORKER_REGION env\<rparr>"
  have "players ?lobby = map p_id chosen \<and> maxPlayers ?lobby = LOBBY_SIZE \<and>
        hostId ?lobby = p_id (hd chosen)"
    by simp
  then show ?thesis
    using assms
    by (simp add: createLobby_def list.case_eq_if Let_def case_prod_beta notify_loop_queue)
      (rule exI [of _ ?lobby], simp)
qed

text \<open>
  Claim C5. On a well-formed queue a lobby-formation sweep never throws. Either it changes
  nothing, or it files one lobby record whose member list has exactly \<open>LOBBY_SIZE\<close> (4)
  distinct ids, all of them queued, and it removes exactly those players from the queue,
  which shrinks by 4. So no lobby is created with fewer, or more, than 4 members.
\<close>

theorem tryCreateLobbies_capacity:
  assumes wf: "wellFormedQueue (m_players st)"
  shows "\<exists>st' effects. tryCreateLobbies env now lobbyId st = Some (st', effects) \<and>
     (st' = st \<and> effects = [] \<or>
      (\<exists>lobby. m_lobbies st' = AList.update lobbyId lobby (m_lobbies st) \<and>
         length (players lobby) = LOBBY_SIZE \<and> maxPlayers lobby = LOBBY_SIZE \<and>
         distinct (players lobby) \<and> set (players lobby) \<subseteq> fst ` set (m_players st) \<and>
         m_players st' = filter (\<lambda>(k, p). k \<notin> set (players lobby)) (m_players st) \<and>
         length (m_players st') + LOBBY_SIZE = length (m_players st)))"
proof -
  let ?arr = "map snd (m_players st)"
  have ids: "map p_id ?arr = map fst (m_players st)"
    using wf by (rule wellFormedQueue_ids)
  have dk: "distinct (map fst (m_players st))"
    using wf by (simp add: wellFormedQueue_def)
  have dids: "distinct (map p_id ?arr)"
    unfolding ids by (rule dk)
  then have darr: "distinct ?arr" and inj: "inj_on p_id (set ?arr)"
    by (simp_all only: distinct_map)
  obtain sel where sel: "selectPlayersForLobby ?arr LOBBY_SIZE = Some sel"
      "distinct sel" "set sel \<subseteq> set ?arr"
    using selectPlayersForLobby_part [OF darr] by blast
  show ?thesis
  proof (cases "length ?arr < LOBBY_SIZE \<or> length sel < LOBBY_SIZE")
    case True
    then have "tryCreateLobbies env now lobbyId st = Some (st, [])"
      using sel(1) by (auto simp: tryCreateLobbies_def Let_def)
    then show ?thesis by simp
  next
    case False
    define chosen where "chosen = take LOBBY_SIZE sel"
    have len: "length chosen = LOBBY_SIZE"
      using False by (simp add: chosen_def)
    then have ne: "chosen \<noteq> []"
      by (auto simp: LOBBY_SIZE_def)
    have csub: "set chosen \<subseteq> set ?arr"
      unfolding chosen_def using sel(3) by (meson order_trans set_take_subset)
    have "distinct chosen"
      unfolding chosen_def using sel(2) by simp
    moreover have "inj_on p_id (set chosen)"
      using inj csub by (rule inj_on_subset)
    ultimately have cdist: "distinct (map p_id chosen)"
      by (simp only: distinct_map)
    have cids: "set (map p_id chosen) \<subseteq> fst ` set (m_players st)"
    proof -
      have "set (map p_id chosen) \<subseteq> set (map p_id ?arr)"
        using csub by auto
      then show ?thesis unfolding ids by simp
    qed
    have run: "tryCreateLobbies env now lobbyId st = createLobby env now lobbyId st chosen"
      using False sel(1) by (simp add: tryCreateLobbies_def Let_def chosen_def)
    obtain st' effects lobby where c:
      "createLobby env now lobbyId st chosen = Some (st', effects)"
      "m_lobbies st' = AList.update lobbyId lobby (m_lobbies st)"
      "players lobby = map p_id chosen" "maxPlayers lobby = LOBBY_SIZE"
      "m_players st' = filter (\<lambda>(k, p). k \<notin> set (map p_id chosen)) (m_players st)"
      using createLobby_effect [OF ne, of env now lobbyId st] by blast
    have count: "length (m_players st') + LOBBY_SIZE = length (m_players st)"
      unfolding c(5) using removed_count [OF dk cdist cids] len by simp
    have "m_lobbies st' = AList.update lobbyId lobby (m_lobbies st) \<and>
         length (players lobby) = LOBBY_SIZE \<and> maxPlayers lobby = LOBBY_SIZE \<and>
         distinct (players lobby) \<and> set (players lobby) \<subseteq> fst ` set (m_players st) \<and>
         m_players st' = filter (\<lambda>(k, p). k \<notin> set (players lobby)) (m_players st) \<and>
         length (m_players st') + LOBBY_SIZE = length (m_players st)"
      using c len cdist cids count by simp
    then show ?thesis
      unfolding run c(1) by blast
  qed
qed

text \<open>
  With \<open>c\<close> unmeasured every player falls into one band and the first four of it, in order
  of latency, form the lobby; the two members with a socket are told. With no band of four
  the sweep leaves the queue as it is.
\<close>

theorem tryCreateLobbies_capacity_witness:
  "wellFormedQueue (m_players (queueOf sixWaiting [(''c'', 1), (''a'', 2), (''f'', 6)])) \<and>
   tryCreateLobbies sampleEnv 1000 ''lobby_1''
       (queueOf sixWaiting [(''c'', 1), (''a'', 2), (''f'', 6)]) =
     Some (\<lparr>m_players = [queued ''d'' 320, queued ''f'' 500],
            m_lobbies = [(''lobby_1'', lobbyOf [''c'', ''a'', ''e'', ''b''])],
            m_connections = [(''c'', 1), (''a'', 2), (''f'', 6)]\<rparr>,
           [Send 1 (lobbyNotice [''c'', ''a'', ''e'', ''b''] True),
            Send 2 (lobbyNotice [''c'', ''a'', ''e'', ''b''] False)]) \<and>
   tryCreateLobbies sampleEnv 1000 ''lobby_1'' (queueOf spreadWaiting []) =
     Some (queueOf spreadWaiting [], [])"
  using tryCreateLobbies_capacity [of "queueOf sixWaiting [(''c'', 1), (''a'', 2), (''f'', 6)]"
      sampleEnv 1000 "''lobby_1''"]
    tryCreateLobbies_capacity [of "queueOf spreadWaiting []" sampleEnv 1000 "''lobby_1''"]
  by (simp add: tryCreateLobbies_def selectPlayersForLobby_def createLobby_def
      groupPlayersByPing_def arePingsCompatible_def MAX_PING_DIFFERENCE_def
      notifyAndRemove_def LOBBY_SIZE_def wellFormedQueue_def lobbyNotice_def
      queued_def sampleEnv_def queueOf_def lobbyOf_def sixWaiting_def spreadWaiting_def
      Let_def AList.delete_eq)

text \<open>
  Claim C4. For the waiting players with latencies 10, 40, 90 and 200,
  \<open>groupPlayersByPing\<close> puts 10, 40 and 90 in one group and 200 in a group of its own, and
  with a fifth player of latency 95 the group of 10, 40, 90 and 95 reaches capacity: the
  lobby is formed from exactly those four and the player with latency 200 stays queued. On
  the queue of exactly four the code departs from the claim: \<open>selectPlayersForLobby\<close> hands
  the whole queue back before any grouping, and the sweep forms a lobby that holds the
  player with latency 200. The same four players with a fifth one at latency 500 go
  through the grouping and form no lobby.
\<close>

theorem lobby_formation_example:
  "groupPlayersByPing (map snd fourWaiting) =
     Some [map snd [queued ''a'' 10, queued ''b'' 40, queued ''c'' 90],
           [snd (queued ''d'' 200)]] \<and>
   groupPlayersByPing (map snd fiveWaiting) =
     Some [map snd [queued ''a'' 10, queued ''b'' 40, queued ''c'' 90, queued ''e'' 95],
           [snd (queued ''d'' 200)]] \<and>
   tryCreateLobbies sampleEnv 1000 ''lobby_1'' (queueOf fiveWaiting []) =
     Some (\<lparr>m_players = [queued ''d'' 200],
            m_lobbies = [(''lobby_1'', lobbyOf [''a'', ''b'', ''c'', ''e''])],
            m_connections = []\<rparr>, []) \<and>
   selectPlayersForLobby (map snd fourWaiting) LOBBY_SIZE = Some (map snd fourWaiting) \<and>
   tryCreateLobbies sampleEnv 1000 ''lobby_1'' (queueOf fourWaiting []) =
     Some (\<lparr>m_players = [], m_lobbies = [(''lobby_1'', lobbyOf [''a'', ''b'', ''c'', ''d''])],
            m_connections = []\<rparr>, []) \<and>
   ping (snd (queued ''d'' 200)) = 200 \<and>
   tryCreateLobbies sampleEnv 1000 ''lobby_1'' (queueOf farWaiting []) =
     Some (queueOf farWaiting [], [])"
  by (simp add: tryCreateLobbies_def selectPlayersForLobby_def createLobby_def
      groupPlayersByPing_def arePingsCompatible_def MAX_PING_DIFFERENCE_def
      notifyAndRemove_def LOBBY_SIZE_def
      queued_def sampleEnv_def queueOf_def lobbyOf_def fourWaiting_def fiveWaiting_def
      farWaiting_def Let_def AList.delete_eq)

end
